theory Spec2Isabelle
  imports Main "HOL-Library.Sublist"
begin

section \<open>Python strings and paths\<close>

text \<open>
  The scripts lean on a handful of operations of Python's \<open>str\<close>, \<open>os.path\<close>
  (POSIX flavour) and f-strings. They are written out here on \<open>string\<close> the way
  CPython computes them.
\<close>

text \<open>\<open>str(i)\<close> for an integer, as an f-string renders it: decimal, with a sign.\<close>

fun str_nat :: "nat \<Rightarrow> string" where
  "str_nat n =
     (if n < 10 then [''0123456789'' ! n]
      else str_nat (n div 10) @ [''0123456789'' ! (n mod 10)])"

declare str_nat.simps [simp del]

definition str_int :: "int \<Rightarrow> string" where
  "str_int i = (if i < 0 then CHR ''-'' # str_nat (nat (- i)) else str_nat (nat i))"

text \<open>\<open>s.rfind(c)\<close> for a single character: the highest index of \<open>c\<close>, or \<open>-1\<close>.\<close>

definition rfind :: "char \<Rightarrow> string \<Rightarrow> int" where
  "rfind c s =
     (if c \<in> set s
      then int (length s) - 1 - int (length (takeWhile (\<lambda>x. x \<noteq> c) (rev s)))
      else - 1)"

text \<open>\<open>os.path.basename(p)\<close>: \<open>p[p.rfind('/') + 1:]\<close>.\<close>

definition basename :: "string \<Rightarrow> string" where
  "basename p = drop (nat (rfind CHR ''/'' p + 1)) p"

text \<open>
  \<open>os.path.splitext(p)\<close>: the extension starts at the last dot, provided that dot
  lies after the last separator and some character between the separator and the dot is
  not itself a dot (leading dots of a file name do not start an extension).
\<close>

definition splitext :: "string \<Rightarrow> string \<times> string" where
  "splitext p =
     (let sepIndex = rfind CHR ''/'' p;
          dotIndex = rfind CHR ''.'' p
      in if dotIndex > sepIndex \<and>
            list_ex (\<lambda>c. c \<noteq> CHR ''.'')
              (take (nat (dotIndex - (sepIndex + 1))) (drop (nat (sepIndex + 1)) p))
         then (take (nat dotIndex) p, drop (nat dotIndex) p)
         else (p, []))"

text \<open>\<open>os.path.join(a, b)\<close> for two components.\<close>

definition path_join :: "string \<Rightarrow> string \<Rightarrow> string" where
  "path_join a b =
     (if b \<noteq> [] \<and> hd b = CHR ''/'' then b
      else if a = [] \<or> last a = CHR ''/'' then a @ b
      else a @ ''/'' @ b)"

text \<open>
  \<open>s.replace(old, new)\<close>: every non-overlapping occurrence of \<open>old\<close>, found from the
  left, is replaced. For an empty \<open>old\<close> Python inserts \<open>new\<close> before every character
  and at the end.
\<close>

function replace :: "string \<Rightarrow> string \<Rightarrow> string \<Rightarrow> string" where
  "replace old new [] = (if old = [] then new else [])"
| "replace old new (c # cs) =
     (if old = [] then new @ c # replace old new cs
      else if prefix old (c # cs) then new @ replace old new (drop (length old) (c # cs))
      else c # replace old new cs)"
  by pat_completeness auto
termination
  by (relation "measure (\<lambda>(old, new, s). length s)") auto

text \<open>\<open>s.endswith(suffix)\<close> and \<open>s.rstrip(chars)\<close>.\<close>

definition endswith :: "string \<Rightarrow> string \<Rightarrow> bool" where
  "endswith s suf = suffix suf s"

definition rstrip :: "string \<Rightarrow> string \<Rightarrow> string" where
  "rstrip s chars = rev (dropWhile (\<lambda>c. c \<in> set chars) (rev s))"

section \<open>The observations table\<close>

text \<open>
  A row of the \<open>observations\<close> table, restricted to the columns the scripts read or
  write (\<open>id\<close>, \<open>taxon_id\<close>, \<open>image_url\<close>, \<open>annotations\<close>). The last two are nullable
  (\<open>None\<close> is SQL \<open>NULL\<close>).
\<close>

record obs_row =
  id_col :: int
  taxon_id_col :: int
  image_url_col :: "string option"
  annotations_col :: "string option"

datatype py_exn =
    TypeError
  | KeyError
  | IndexError
  | AttributeError
  | ValueError
  | BadZipFile
  | ClientError string

type_synonym bytes = string

text \<open>The file system: a path either has content or does not exist.\<close>

type_synonym filesystem = "string \<rightharpoonup> bytes"

definition path_exists :: "filesystem \<Rightarrow> string \<Rightarrow> bool" where
  "path_exists fs p = (fs p \<noteq> None)"

section \<open>scrape.py: building the work list\<close>

type_synonym work_item = "int \<times> int \<times> string"

definition IMAGE_SIZES :: "string list" where
  "IMAGE_SIZES = [''small'', ''medium'', ''large'', ''original'']"

text \<open>
  \<open>get_urls\<close>: the loop over the rows of \<open>SELECT id, taxon_id, image_url FROM
  observations\<close>, with the list \<open>urls\<close> as accumulator. \<open>IMAGE_DIR\<close> comes from the
  module \<open>common\<close> and is a parameter here. A \<open>NULL\<close> \<open>image_url\<close> reaches
  \<open>os.path.basename(None)\<close>, which raises \<open>TypeError\<close>.
\<close>

fun get_urls_loop ::
  "string \<Rightarrow> filesystem \<Rightarrow> string \<Rightarrow> bool \<Rightarrow> obs_row list \<Rightarrow> work_item list
     \<Rightarrow> py_exn + work_item list" where
  "get_urls_loop image_dir fs image_size force [] urls = Inr urls"
| "get_urls_loop image_dir fs image_size force (r # rs) urls =
     (case image_url_col r of
        None \<Rightarrow> Inl TypeError
      | Some u \<Rightarrow>
          (let ext = snd (splitext (basename u)) in
           if ext = ''.gif'' then get_urls_loop image_dir fs image_size force rs urls
           else
             (let ext' = (if ext = ''.'' then ''.jpg'' else ext) in
              if \<not> path_exists fs (path_join image_dir (str_int (id_col r) @ ext')) \<or> force
              then get_urls_loop image_dir fs image_size force rs
                     (urls @ [(id_col r, taxon_id_col r, replace ''medium'' image_size u)])
              else get_urls_loop image_dir fs image_size force rs urls)))"

definition get_urls ::
  "string \<Rightarrow> filesystem \<Rightarrow> obs_row list \<Rightarrow> string \<Rightarrow> bool \<Rightarrow> py_exn + work_item list" where
  "get_urls image_dir fs conn image_size force =
     get_urls_loop image_dir fs image_size force conn []"

section \<open>Responses and log records\<close>

text \<open>
  What \<open>await r.json()\<close> yields: a parsed JSON document. Numbers are integers (the only
  number the worker looks at is the result count); an object is an association list that
  is read with \<open>map_of\<close>.
\<close>

datatype json =
    JNull
  | JBool bool
  | JNum int
  | JStr string
  | JArr "json list"
  | JObj "(string \<times> json) list"

text \<open>
  The outcome of \<open>session.get(url)\<close>: the request raises, or a response arrives with a
  status and a body whose reading (\<open>resp.read()\<close>, \<open>r.json()\<close>) may raise in turn.
\<close>

datatype 'a http_result =
    Raised py_exn
  | Response int "py_exn + 'a"

text \<open>
  Log records are kept as data, one constructor per format string of the source, with the
  level of the \<open>logging\<close> call that emits them. Every call in the source is
  \<open>logging.info\<close>.
\<close>

datatype log_level = INFO | WARNING

datatype log_event =
    Saved int int
  | DownloadFailedStatus int int int
  | DownloadFailedExn int int py_exn
  | Downloaded string
  | WroteObservations nat
  | ScrapeFailedResults int json
  | ScrapeFailedStatus int int
  | ScrapeFailedExn int py_exn

type_synonym log_record = "log_level \<times> log_event"

section \<open>scrape.py: downloading images\<close>

record world =
  files :: filesystem
  logged :: "log_record list"

definition logging_info :: "log_event \<Rightarrow> world \<Rightarrow> world" where
  "logging_info ev w = w\<lparr>logged := logged w @ [(INFO, ev)]\<rparr>"

text \<open>
  \<open>download_image\<close>. The session is the function from URLs to outcomes of a GET. Opening
  the target with mode \<open>"wb"\<close> creates or truncates it before the body is read, so a
  body that fails to read leaves an empty file behind. Every exception is caught and
  logged; the coroutine has no other effect and returns nothing.
\<close>

definition download_image ::
  "string \<Rightarrow> (string \<Rightarrow> bytes http_result) \<Rightarrow> int \<Rightarrow> int \<Rightarrow> string \<Rightarrow> world \<Rightarrow> world" where
  "download_image image_dir session image_id taxon_id image_url w =
     (case session image_url of
        Raised e \<Rightarrow> logging_info (DownloadFailedExn image_id taxon_id e) w
      | Response status body \<Rightarrow>
          if status = 200 then
            (let ext = snd (splitext (basename image_url));
                 path = path_join image_dir (str_int image_id @ ext);
                 w1 = w\<lparr>files := (files w)(path \<mapsto> [])\<rparr>
             in case body of
                  Inl e \<Rightarrow> logging_info (DownloadFailedExn image_id taxon_id e) w1
                | Inr content \<Rightarrow>
                    logging_info (Saved image_id taxon_id)
                      (w1\<lparr>files := (files w1)(path \<mapsto> content)\<rparr>))
          else logging_info (DownloadFailedStatus image_id taxon_id status) w)"

text \<open>
  \<open>download_images\<close> runs on the asyncio event loop, so it is a step relation. The main
  coroutine walks the list; for each item it enters \<open>async with sem\<close> (possible only
  while the semaphore's value is positive), creates the task inside the block and leaves
  the block, which releases the semaphore. None of this suspends the main coroutine, so
  the tasks it created start only once it awaits \<open>asyncio.gather\<close>. A started task has
  issued its GET and is in flight until the response is handled. \<open>gather\<close> returns when
  every task has finished.
\<close>

datatype main_pc =
    Spawning "work_item list"
  | Holding work_item "work_item list"
  | Gathering
  | Returned

datatype task_status = Created | InFlight | Finished

text \<open>
  The state of a run: where the main coroutine stands, the value of the semaphore, the
  tasks created so far in order of creation, the number of GET requests issued so far,
  and the files and the log.
\<close>

record pool =
  main_task :: main_pc
  sem :: nat
  tasks :: "(work_item \<times> task_status) list"
  fetches :: nat
  env :: world

definition init_pool :: "work_item list \<Rightarrow> nat \<Rightarrow> world \<Rightarrow> pool" where
  "init_pool urls semaphore w =
     \<lparr>main_task = Spawning urls, sem = semaphore, tasks = [], fetches = 0, env = w\<rparr>"

inductive download_images_step ::
  "string \<Rightarrow> (string \<Rightarrow> bytes http_result) \<Rightarrow> string \<Rightarrow> pool \<Rightarrow> pool \<Rightarrow> bool"
  for image_dir :: string and session :: "string \<Rightarrow> bytes http_result" and image_size :: string
  where
  sem_acquire:
    "main_task s = Spawning (u # us) \<Longrightarrow> 0 < sem s \<Longrightarrow>
     download_images_step image_dir session image_size s
       (s\<lparr>main_task := Holding u us, sem := sem s - 1\<rparr>)"
| create_task_release:
    "main_task s = Holding u us \<Longrightarrow>
     download_images_step image_dir session image_size s
       (s\<lparr>main_task := Spawning us, sem := sem s + 1, tasks := tasks s @ [(u, Created)]\<rparr>)"
| loop_exit:
    "main_task s = Spawning [] \<Longrightarrow>
     download_images_step image_dir session image_size s (s\<lparr>main_task := Gathering\<rparr>)"
| task_start:
    "main_task s = Gathering \<Longrightarrow> i < length (tasks s) \<Longrightarrow> tasks s ! i = (u, Created) \<Longrightarrow>
     download_images_step image_dir session image_size s
       (s\<lparr>tasks := (tasks s)[i := (u, InFlight)], fetches := Suc (fetches s)\<rparr>)"
| task_finish:
    "main_task s = Gathering \<Longrightarrow> i < length (tasks s) \<Longrightarrow>
     tasks s ! i = ((image_id, taxon_id, image_url), InFlight) \<Longrightarrow>
     download_images_step image_dir session image_size s
       (s\<lparr>tasks := (tasks s)[i := ((image_id, taxon_id, image_url), Finished)],
          env := download_image image_dir session image_id taxon_id image_url (env s)\<rparr>)"
| gather_done:
    "main_task s = Gathering \<Longrightarrow> list_all (\<lambda>t. snd t = Finished) (tasks s) \<Longrightarrow>
     download_images_step image_dir session image_size s
       (s\<lparr>main_task := Returned, env := logging_info (Downloaded image_size) (env s)\<rparr>)"

inductive download_images_reach ::
  "string \<Rightarrow> (string \<Rightarrow> bytes http_result) \<Rightarrow> string \<Rightarrow> pool \<Rightarrow> pool \<Rightarrow> bool"
  for image_dir :: string and session :: "string \<Rightarrow> bytes http_result" and image_size :: string
    and s0 :: pool
  where
  reach_init: "download_images_reach image_dir session image_size s0 s0"
| reach_step:
    "download_images_reach image_dir session image_size s0 s \<Longrightarrow>
     download_images_step image_dir session image_size s t \<Longrightarrow>
     download_images_reach image_dir session image_size s0 t"

definition in_flight :: "pool \<Rightarrow> nat" where
  "in_flight s = length (filter (\<lambda>t. snd t = InFlight) (tasks s))"

section \<open>scrape.py: loading the exports\<close>

text \<open>
  The export directory is the list \<open>os.listdir\<close> returns, each name with what the file
  holds: a zip archive (member names with the table \<open>pd.read_csv\<close> reads from them) or
  something \<open>zipfile.ZipFile\<close> rejects. A data frame is the list of its rows.
\<close>

datatype export_file =
    Archive "(string \<times> obs_row list) list"
  | NotAnArchive

definition read_export :: "string \<Rightarrow> export_file \<Rightarrow> py_exn + obs_row list" where
  "read_export file content =
     (case content of
        NotAnArchive \<Rightarrow> Inl BadZipFile
      | Archive members \<Rightarrow>
          (case map_of members (rstrip file ''.zip'') of
             None \<Rightarrow> Inl KeyError
           | Some df \<Rightarrow> Inr df))"

fun read_exports ::
  "(string \<times> export_file) list \<Rightarrow> obs_row list list \<Rightarrow> py_exn + obs_row list list" where
  "read_exports [] dataframes = Inr dataframes"
| "read_exports ((file, content) # rest) dataframes =
     (if endswith file ''.zip''
      then (case read_export file content of
              Inl e \<Rightarrow> Inl e
            | Inr df \<Rightarrow> read_exports rest (dataframes @ [df]))
      else read_exports rest dataframes)"

text \<open>\<open>pd.concat\<close> refuses an empty list; \<open>drop_duplicates\<close> keeps first occurrences.\<close>

definition pd_concat :: "obs_row list list \<Rightarrow> py_exn + obs_row list" where
  "pd_concat dataframes = (if dataframes = [] then Inl ValueError else Inr (concat dataframes))"

definition drop_duplicates :: "'a list \<Rightarrow> 'a list" where
  "drop_duplicates df = rev (remdups (rev df))"

text \<open>
  \<open>DataFrame.to_sql(name, conn, if_exists=...)\<close> on a database whose table is absent
  (\<open>None\<close>) or holds rows.
\<close>

datatype if_exists = Fail | Replace | Append

definition to_sql :: "if_exists \<Rightarrow> obs_row list \<Rightarrow> obs_row list option \<Rightarrow> py_exn + obs_row list" where
  "to_sql mode df table =
     (case table of
        None \<Rightarrow> Inr df
      | Some old \<Rightarrow>
          (case mode of
             Fail \<Rightarrow> Inl ValueError
           | Replace \<Rightarrow> Inr df
           | Append \<Rightarrow> Inr (old @ df)))"

definition load_observations ::
  "(string \<times> export_file) list \<Rightarrow> obs_row list option \<Rightarrow> log_record list
     \<Rightarrow> py_exn + obs_row list \<times> log_record list" where
  "load_observations export_dir table lg =
     (case read_exports export_dir [] of
        Inl e \<Rightarrow> Inl e
      | Inr dataframes \<Rightarrow>
          (case pd_concat dataframes of
             Inl e \<Rightarrow> Inl e
           | Inr df0 \<Rightarrow>
               (let df1 = drop_duplicates df0;
                    df = map (\<lambda>r. r\<lparr>annotations_col := None\<rparr>) df1
                in case to_sql Replace df table of
                     Inl e \<Rightarrow> Inl e
                   | Inr table' \<Rightarrow> Inr (table', lg @ [(INFO, WroteObservations (length df))]))))"

section \<open>annotation.py\<close>

text \<open>
  \<open>get_observation_ids\<close>: \<open>fetchall\<close> yields one 1-tuple per selected row, and the list
  comprehension takes its component.
\<close>

definition select_id_where_annotations_is_null :: "obs_row list \<Rightarrow> int list list" where
  "select_id_where_annotations_is_null table =
     map (\<lambda>r. [id_col r]) (filter (\<lambda>r. annotations_col r = None) table)"

definition get_observation_ids :: "obs_row list \<Rightarrow> int list" where
  "get_observation_ids conn =
     map (\<lambda>observation_id. observation_id ! 0) (select_id_where_annotations_is_null conn)"

text \<open>The operations of the worker on the parsed document, with the exceptions Python raises.\<close>

definition subscript_key :: "json \<Rightarrow> string \<Rightarrow> py_exn + json" where
  "subscript_key x k =
     (case x of
        JObj kvs \<Rightarrow> (case map_of kvs k of None \<Rightarrow> Inl KeyError | Some v \<Rightarrow> Inr v)
      | _ \<Rightarrow> Inl TypeError)"

definition subscript_zero :: "json \<Rightarrow> py_exn + json" where
  "subscript_zero x =
     (case x of
        JArr vs \<Rightarrow> (case vs of [] \<Rightarrow> Inl IndexError | v # _ \<Rightarrow> Inr v)
      | JStr s \<Rightarrow> (case s of [] \<Rightarrow> Inl IndexError | c # _ \<Rightarrow> Inr (JStr [c]))
      | JObj kvs \<Rightarrow> Inl KeyError
      | _ \<Rightarrow> Inl TypeError)"

definition dict_get :: "json \<Rightarrow> string \<Rightarrow> json \<Rightarrow> py_exn + json" where
  "dict_get x k dflt =
     (case x of
        JObj kvs \<Rightarrow> Inr (case map_of kvs k of None \<Rightarrow> dflt | Some v \<Rightarrow> v)
      | _ \<Rightarrow> Inl AttributeError)"

definition py_iter :: "json \<Rightarrow> py_exn + json list" where
  "py_iter x =
     (case x of
        JArr vs \<Rightarrow> Inr vs
      | JObj kvs \<Rightarrow> Inr (map (\<lambda>kv. JStr (fst kv)) kvs)
      | JStr s \<Rightarrow> Inr (map (\<lambda>c. JStr [c]) s)
      | _ \<Rightarrow> Inl TypeError)"

definition py_eq_int :: "json \<Rightarrow> int \<Rightarrow> bool" where
  "py_eq_int x n =
     (case x of
        JNum m \<Rightarrow> m = n
      | JBool b \<Rightarrow> (if b then 1 else 0) = n
      | _ \<Rightarrow> False)"

text \<open>\<open>[a["controlled_value"]["label"] for a in ...]\<close>: the first exception ends it.\<close>

fun labels_of :: "json list \<Rightarrow> py_exn + json list" where
  "labels_of [] = Inr []"
| "labels_of (a # as) =
     (case subscript_key a ''controlled_value'' of
        Inl e \<Rightarrow> Inl e
      | Inr cv \<Rightarrow>
          (case subscript_key cv ''label'' of
             Inl e \<Rightarrow> Inl e
           | Inr l \<Rightarrow>
               (case labels_of as of
                  Inl e \<Rightarrow> Inl e
                | Inr ls \<Rightarrow> Inr (l # ls))))"

text \<open>\<open>sep.join(xs)\<close>: every element has to be a string.\<close>

fun str_join :: "string \<Rightarrow> json list \<Rightarrow> py_exn + string" where
  "str_join sep [] = Inr []"
| "str_join sep [x] = (case x of JStr s \<Rightarrow> Inr s | _ \<Rightarrow> Inl TypeError)"
| "str_join sep (x # y # ys) =
     (case x of
        JStr s \<Rightarrow>
          (case str_join sep (y # ys) of
             Inl e \<Rightarrow> Inl e
           | Inr r \<Rightarrow> Inr (s @ sep @ r))
      | _ \<Rightarrow> Inl TypeError)"

text \<open>
  The state the worker acts on: the \<open>asyncio.Queue\<close> (its items and its count of
  unfinished tasks), the table as the aiosqlite connection sees it and as the database
  file holds it, the number of GET requests issued so far, standard output and the log.
\<close>

record scraper =
  queue :: "int list"
  unfinished :: nat
  conn_table :: "obs_row list"
  database :: "obs_row list"
  requests :: nat
  printed :: "(int \<times> string) list"
  log_records :: "log_record list"

definition queue_put :: "int \<Rightarrow> scraper \<Rightarrow> scraper" where
  "queue_put x st = st\<lparr>queue := queue st @ [x], unfinished := Suc (unfinished st)\<rparr>"

text \<open>\<open>queue.get()\<close> on an empty queue suspends the caller: there is no result.\<close>

definition queue_get :: "scraper \<Rightarrow> (int \<times> scraper) option" where
  "queue_get st = (case queue st of [] \<Rightarrow> None | x # q \<Rightarrow> Some (x, st\<lparr>queue := q\<rparr>))"

definition task_done :: "scraper \<Rightarrow> py_exn + scraper" where
  "task_done st =
     (if unfinished st = 0 then Inl ValueError
      else Inr (st\<lparr>unfinished := unfinished st - 1\<rparr>))"

definition log_info :: "log_event \<Rightarrow> scraper \<Rightarrow> scraper" where
  "log_info ev st = st\<lparr>log_records := log_records st @ [(INFO, ev)]\<rparr>"

definition sql_update_annotations :: "string \<Rightarrow> int \<Rightarrow> obs_row list \<Rightarrow> obs_row list" where
  "sql_update_annotations a i table =
     map (\<lambda>r. if id_col r = i then r\<lparr>annotations_col := Some a\<rparr> else r) table"

definition conn_execute_update :: "string \<Rightarrow> int \<Rightarrow> scraper \<Rightarrow> scraper" where
  "conn_execute_update a i st = st\<lparr>conn_table := sql_update_annotations a i (conn_table st)\<rparr>"

definition conn_commit :: "scraper \<Rightarrow> scraper" where
  "conn_commit st = st\<lparr>database := conn_table st\<rparr>"

text \<open>
  The body of the \<open>try\<close> statement of \<open>scrape_annotations\<close>, given the outcome of the GET.
  \<open>Inl\<close> is an exception on its way to the \<open>except\<close> clause.
\<close>

definition try_block :: "json http_result \<Rightarrow> int \<Rightarrow> scraper \<Rightarrow> py_exn + scraper" where
  "try_block r observation_id st =
     (case r of
        Raised e \<Rightarrow> Inl e
      | Response status body \<Rightarrow>
          if status = 200 then
            (case body of
               Inl e \<Rightarrow> Inl e
             | Inr data \<Rightarrow>
                 (case subscript_key data ''total_results'' of
                    Inl e \<Rightarrow> Inl e
                  | Inr total_results \<Rightarrow>
                      if py_eq_int total_results 1 then
                        (case subscript_key data ''results'' of
                           Inl e \<Rightarrow> Inl e
                         | Inr results \<Rightarrow>
                        (case subscript_zero results of
                           Inl e \<Rightarrow> Inl e
                         | Inr observation \<Rightarrow>
                        (case dict_get observation ''annotations'' (JArr []) of
                           Inl e \<Rightarrow> Inl e
                         | Inr annotation_objects \<Rightarrow>
                        (case py_iter annotation_objects of
                           Inl e \<Rightarrow> Inl e
                         | Inr items \<Rightarrow>
                        (case labels_of items of
                           Inl e \<Rightarrow> Inl e
                         | Inr annotations \<Rightarrow>
                             if length annotations > 0 then
                               (case str_join '','' annotations of
                                  Inl e \<Rightarrow> Inl e
                                | Inr joined \<Rightarrow>
                                    Inr (conn_commit
                                          (conn_execute_update joined observation_id
                                            (st\<lparr>printed := printed st @ [(observation_id, joined)]\<rparr>))))
                             else Inr st)))))
                      else
                        Inr (queue_put observation_id
                              (log_info (ScrapeFailedResults observation_id total_results) st))))
          else
            Inr (queue_put observation_id
                  (log_info (ScrapeFailedStatus observation_id status) st)))"

text \<open>
  One turn of the \<open>while True\<close> loop after the item has been taken from the queue: the
  request, the \<open>try\<close> statement with its \<open>except Exception\<close> clause, then
  \<open>queue.task_done()\<close>, which stands outside the \<open>try\<close>.
\<close>

definition loop_body ::
  "(nat \<Rightarrow> int \<Rightarrow> json http_result) \<Rightarrow> int \<Rightarrow> scraper \<Rightarrow> py_exn + scraper" where
  "loop_body session observation_id st =
     (let st1 = st\<lparr>requests := Suc (requests st)\<rparr>;
          st2 = (case try_block (session (requests st) observation_id) observation_id st1 of
                   Inl e \<Rightarrow>
                     queue_put observation_id
                       (log_info (ScrapeFailedExn observation_id e) st1)
                 | Inr st' \<Rightarrow> st')
      in task_done st2)"

text \<open>
  A coroutine hands back a value or an exception. The values that matter here are
  \<open>None\<close> and a list of (annotations, id) pairs.
\<close>

datatype pyval = PyNone | PyPairs "(string \<times> int) list"

text \<open>
  \<open>scrape_annotations\<close>: \<open>while True\<close> without \<open>break\<close> or \<open>return\<close>. The coroutine is
  left only by an exception that escapes the loop body. It is the only task on the loop, so
  a \<open>queue.get()\<close> that suspends is never resumed: the result is \<open>None\<close>, the
  coroutine does not come back.
\<close>

partial_function (option) scrape_annotations ::
  "(nat \<Rightarrow> int \<Rightarrow> json http_result) \<Rightarrow> scraper \<Rightarrow> ((py_exn + pyval) \<times> scraper) option" where
  "scrape_annotations session st =
     (case queue_get st of
        None \<Rightarrow> None
      | Some (observation_id, st1) \<Rightarrow>
          (case loop_body session observation_id st1 of
             Inl e \<Rightarrow> Some (Inl e, st1)
           | Inr st2 \<Rightarrow> scrape_annotations session st2))"

text \<open>
  \<open>scrape_annotations_from_ids\<close>: connect and fill the queue (\<open>init_scraper\<close>), await
  the worker, and fall off the end (the value of the call is then \<open>None\<close>). \<open>limit\<close>
  and \<open>proxy\<close> only configure the connector of the HTTP session.
\<close>

definition init_scraper :: "int list \<Rightarrow> obs_row list \<Rightarrow> scraper" where
  "init_scraper ids db =
     fold queue_put ids
       \<lparr>queue = [], unfinished = 0, conn_table = db, database = db,
        requests = 0, printed = [], log_records = []\<rparr>"

definition scrape_annotations_from_ids ::
  "(nat \<Rightarrow> int \<Rightarrow> json http_result) \<Rightarrow> int list \<Rightarrow> int \<Rightarrow> string \<Rightarrow> obs_row list
     \<Rightarrow> ((py_exn + pyval) \<times> scraper) option" where
  "scrape_annotations_from_ids session ids limit proxy db =
     (case scrape_annotations session (init_scraper ids db) of
        None \<Rightarrow> None
      | Some (Inl e, st) \<Rightarrow> Some (Inl e, st)
      | Some (Inr v, st) \<Rightarrow> Some (Inr PyNone, st))"

text \<open>
  \<open>main\<close>: the ids, the run, then \<open>conn.executemany\<close> over whatever the run returned.
  \<open>executemany\<close> iterates its argument, which \<open>None\<close> does not allow.
\<close>

definition executemany :: "pyval \<Rightarrow> obs_row list \<Rightarrow> py_exn + obs_row list" where
  "executemany v table =
     (case v of
        PyNone \<Rightarrow> Inl TypeError
      | PyPairs ps \<Rightarrow> Inr (fold (\<lambda>(a, i). sql_update_annotations a i) ps table))"

definition main ::
  "(nat \<Rightarrow> int \<Rightarrow> json http_result) \<Rightarrow> int \<Rightarrow> string \<Rightarrow> obs_row list
     \<Rightarrow> (py_exn + obs_row list) option" where
  "main session limit proxy db =
     (let ids = get_observation_ids db
      in case scrape_annotations_from_ids session ids limit proxy db of
           None \<Rightarrow> None
         | Some (Inl e, st) \<Rightarrow> Some (Inl e)
         | Some (Inr annotations, st) \<Rightarrow> Some (executemany annotations (database st)))"

text \<open>The first \<open>n\<close> turns of the worker's loop, for looking at a run that does not end.\<close>

fun worker_turns :: "nat \<Rightarrow> (nat \<Rightarrow> int \<Rightarrow> json http_result) \<Rightarrow> scraper \<Rightarrow> scraper" where
  "worker_turns 0 session st = st"
| "worker_turns (Suc n) session st =
     (case queue_get st of
        None \<Rightarrow> st
      | Some (observation_id, st1) \<Rightarrow>
          (case loop_body session observation_id st1 of
             Inl e \<Rightarrow> st1
           | Inr st2 \<Rightarrow> worker_turns n session st2))"

section \<open>Notions used in the statements\<close>

text \<open>
  The work list as a filter over the table, first the way the specification words it (a
  row is kept unless a file named by the identifier and the extension of its URL exists),
  then the way \<open>get_urls\<close> decides (a bare \<open>.\<close> counts as \<open>.jpg\<close> in the file test).
\<close>

definition url_of :: "obs_row \<Rightarrow> string" where
  "url_of r = (case image_url_col r of None \<Rightarrow> [] | Some u \<Rightarrow> u)"

definition url_ext :: "obs_row \<Rightarrow> string" where
  "url_ext r = snd (splitext (basename (url_of r)))"

definition to_work_item :: "string \<Rightarrow> obs_row \<Rightarrow> work_item" where
  "to_work_item image_size r =
     (id_col r, taxon_id_col r, replace ''medium'' image_size (url_of r))"

definition claimed_work_list ::
  "string \<Rightarrow> filesystem \<Rightarrow> obs_row list \<Rightarrow> string \<Rightarrow> bool \<Rightarrow> work_item list" where
  "claimed_work_list image_dir fs table image_size force =
     map (to_work_item image_size)
       (filter (\<lambda>r. url_ext r \<noteq> ''.gif'' \<and>
                  (\<not> path_exists fs (path_join image_dir (str_int (id_col r) @ url_ext r))
                   \<or> force))
          table)"

definition checked_ext :: "obs_row \<Rightarrow> string" where
  "checked_ext r = (if url_ext r = ''.'' then ''.jpg'' else url_ext r)"

definition selected :: "string \<Rightarrow> filesystem \<Rightarrow> bool \<Rightarrow> obs_row \<Rightarrow> bool" where
  "selected image_dir fs force r \<longleftrightarrow>
     url_ext r \<noteq> ''.gif'' \<and>
     (\<not> path_exists fs (path_join image_dir (str_int (id_col r) @ checked_ext r)) \<or> force)"

definition work_list ::
  "string \<Rightarrow> filesystem \<Rightarrow> obs_row list \<Rightarrow> string \<Rightarrow> bool \<Rightarrow> work_item list" where
  "work_list image_dir fs table image_size force =
     map (to_work_item image_size) (filter (selected image_dir fs force) table)"

text \<open>
  The label of a well-formed annotation object, and the comma-joined string of a list of
  labels: what the specification calls the derived labels and their joined value.
\<close>

fun label_of :: "json \<Rightarrow> string option" where
  "label_of (JObj kvs) =
     (case map_of kvs ''controlled_value'' of
        Some (JObj cv) \<Rightarrow>
          (case map_of cv ''label'' of
             Some (JStr l) \<Rightarrow> Some l
           | _ \<Rightarrow> None)
      | _ \<Rightarrow> None)"
| "label_of _ = None"

fun comma_join :: "string list \<Rightarrow> string" where
  "comma_join [] = []"
| "comma_join [l] = l"
| "comma_join (l # m # ls) = l @ '','' @ comma_join (m # ls)"

text \<open>The queue never holds more items than its count of unfinished tasks.\<close>

definition queue_counted :: "scraper \<Rightarrow> bool" where
  "queue_counted st \<longleftrightarrow> length (queue st) \<le> unfinished st"

text \<open>
  For the pool: the items the main coroutine has not yet turned into tasks, and the number
  of tasks that have issued their request.
\<close>

definition remaining :: "main_pc \<Rightarrow> work_item list" where
  "remaining pc = (case pc of Spawning us \<Rightarrow> us | Holding u us \<Rightarrow> u # us | _ \<Rightarrow> [])"

definition started :: "pool \<Rightarrow> nat" where
  "started s = length (filter (\<lambda>t. snd t \<noteq> Created) (tasks s))"

text \<open>
  The bodies of \<open>scrape_annotations_from_ids\<close> and of \<open>main\<close> with the coroutine they
  await, respectively the run they start, as a parameter: the statements use them to say
  what either function does with a callee that comes back. The functions themselves are
  the instances at \<open>scrape_annotations\<close> and at \<open>scrape_annotations_from_ids\<close>.
  \<open>committed\<close> applies a list of (id, annotations) updates to a table in order, and a
  state is \<open>persisted\<close> over a table when the database file holds that table with
  exactly the updates the worker has announced on standard output, each of which it
  executes and commits, and the connection sees the same.
\<close>

definition scrape_annotations_from_ids_awaiting ::
  "((nat \<Rightarrow> int \<Rightarrow> json http_result) \<Rightarrow> scraper \<Rightarrow> ((py_exn + pyval) \<times> scraper) option)
     \<Rightarrow> (nat \<Rightarrow> int \<Rightarrow> json http_result) \<Rightarrow> int list \<Rightarrow> int \<Rightarrow> string \<Rightarrow> obs_row list
     \<Rightarrow> ((py_exn + pyval) \<times> scraper) option" where
  "scrape_annotations_from_ids_awaiting worker session ids limit proxy db =
     (case worker session (init_scraper ids db) of
        None \<Rightarrow> None
      | Some (Inl e, st) \<Rightarrow> Some (Inl e, st)
      | Some (Inr v, st) \<Rightarrow> Some (Inr PyNone, st))"

definition main_running ::
  "((nat \<Rightarrow> int \<Rightarrow> json http_result) \<Rightarrow> int list \<Rightarrow> int \<Rightarrow> string \<Rightarrow> obs_row list
       \<Rightarrow> ((py_exn + pyval) \<times> scraper) option)
     \<Rightarrow> (nat \<Rightarrow> int \<Rightarrow> json http_result) \<Rightarrow> int \<Rightarrow> string \<Rightarrow> obs_row list
     \<Rightarrow> (py_exn + obs_row list) option" where
  "main_running run session limit proxy db =
     (let ids = get_observation_ids db
      in case run session ids limit proxy db of
           None \<Rightarrow> None
         | Some (Inl e, st) \<Rightarrow> Some (Inl e)
         | Some (Inr annotations, st) \<Rightarrow> Some (executemany annotations (database st)))"

definition committed :: "(int \<times> string) list \<Rightarrow> obs_row list \<Rightarrow> obs_row list" where
  "committed commits db = fold (\<lambda>(i, a). sql_update_annotations a i) commits db"

definition persisted :: "obs_row list \<Rightarrow> scraper \<Rightarrow> bool" where
  "persisted db st \<longleftrightarrow>
     database st = committed (printed st) db \<and> conn_table st = database st"

text \<open>
  An outcome of the GET after which \<open>download_image\<close> does not open the target file:
  the request raised, or the status is not 200.
\<close>

definition fails_before_write :: "bytes http_result \<Rightarrow> bool" where
  "fails_before_write r = (case r of Raised e \<Rightarrow> True | Response status body \<Rightarrow> status \<noteq> 200)"

section \<open>Facts about the string operations\<close>

lemma prefix_append_notin:
  assumes "c \<notin> set old"
  shows "prefix old (xs @ c # b) \<longleftrightarrow> prefix old xs"
proof
  assume "prefix old (xs @ c # b)"
  then have "prefix old xs \<or> (\<exists>us. old = xs @ us \<and> prefix us (c # b))"
    by (simp add: prefix_append)
  then show "prefix old xs"
  proof
    assume "prefix old xs" then show ?thesis .
  next
    assume "\<exists>us. old = xs @ us \<and> prefix us (c # b)"
    then obtain us where us: "old = xs @ us" "prefix us (c # b)" by blast
    show ?thesis
    proof (cases us)
      case Nil
      with us show ?thesis by simp
    next
      case (Cons u us')
      with us have "u = c" by simp
      with Cons us assms show ?thesis by simp
    qed
  qed
next
  assume "prefix old xs" then show "prefix old (xs @ c # b)" by simp
qed

lemma replace_split:
  "old \<noteq> [] \<Longrightarrow> c \<notin> set old \<Longrightarrow>
   replace old new (a @ c # b) = replace old new a @ c # replace old new b"
proof (induction old new a rule: replace.induct)
  case (1 old new)
  then have "\<not> prefix old (c # b)" by (cases old) auto
  with 1 show ?case by simp
next
  case (2 old new x xs)
  note ne = "2.prems"(1) and notin = "2.prems"(2)
  have pre: "prefix old ((x # xs) @ c # b) \<longleftrightarrow> prefix old (x # xs)"
    using notin by (rule prefix_append_notin)
  show ?case
  proof (cases "prefix old (x # xs)")
    case True
    then have len: "length old \<le> length (x # xs)" by (rule prefix_length_le)
    have IH: "replace old new (drop (length old) (x # xs) @ c # b) =
          replace old new (drop (length old) (x # xs)) @ c # replace old new b"
      using ne True ne notin by (rule "2.IH"(2))
    have dr: "drop (length old) ((x # xs) @ c # b) = drop (length old) (x # xs) @ c # b"
    proof -
      have "drop (length old) ((x # xs) @ c # b) =
              drop (length old) (x # xs) @ drop (length old - length (x # xs)) (c # b)"
        by (rule drop_append)
      moreover from len have "length old - length (x # xs) = 0" by simp
      ultimately show ?thesis by (simp only: drop_0)
    qed
    have "replace old new ((x # xs) @ c # b) =
            new @ replace old new (drop (length old) ((x # xs) @ c # b))"
      using True pre ne by simp
    also have "\<dots> = new @ replace old new (drop (length old) (x # xs)) @ c # replace old new b"
      by (simp only: dr IH)
    also have "\<dots> = replace old new (x # xs) @ c # replace old new b"
      using True ne by simp
    finally show ?thesis .
  next
    case False
    have "replace old new (xs @ c # b) = replace old new xs @ c # replace old new b"
      using ne False ne notin by (rule "2.IH"(3))
    then show ?thesis using False pre ne by simp
  qed
qed

lemma replace_snoc:
  "old \<noteq> [] \<Longrightarrow> c \<notin> set old \<Longrightarrow> replace old new (a @ [c]) = replace old new a @ [c]"
  using replace_split [of old c new a "[]"] by simp

lemma replace_notin:
  "old \<noteq> [] \<Longrightarrow> c \<notin> set s \<Longrightarrow> c \<notin> set new \<Longrightarrow> c \<notin> set (replace old new s)"
proof (induction old new s rule: replace.induct)
  case (1 old new)
  then show ?case by simp
next
  case (2 old new x xs)
  note ne = "2.prems"(1) and cs = "2.prems"(2) and cnew = "2.prems"(3)
  show ?case
  proof (cases "prefix old (x # xs)")
    case True
    have "c \<notin> set (drop (length old) (x # xs))"
      using cs in_set_dropD [of c "length old" "x # xs"] by blast
    with ne True ne have "c \<notin> set (replace old new (drop (length old) (x # xs)))"
      using cnew by (rule "2.IH"(2))
    with True ne cnew show ?thesis by simp
  next
    case False
    from cs have "c \<notin> set xs" and "c \<noteq> x" by auto
    with ne False ne have "c \<notin> set (replace old new xs)"
      using cnew by (intro "2.IH"(3))
    with False ne \<open>c \<noteq> x\<close> show ?thesis by simp
  qed
qed

lemma replace_keeps_other:
  "old \<noteq> [] \<Longrightarrow> \<exists>x \<in> set s. x \<noteq> d \<Longrightarrow> \<exists>x \<in> set new. x \<noteq> d \<Longrightarrow>
   \<exists>x \<in> set (replace old new s). x \<noteq> d"
proof (induction old new s rule: replace.induct)
  case (1 old new)
  then show ?case by simp
next
  case (2 old new x xs)
  note ne = "2.prems"(1) and ex = "2.prems"(2) and exnew = "2.prems"(3)
  show ?case
  proof (cases "prefix old (x # xs)")
    case True
    then have "replace old new (x # xs) = new @ replace old new (drop (length old) (x # xs))"
      using ne by simp
    with exnew show ?thesis by auto
  next
    case False
    then have eq: "replace old new (x # xs) = x # replace old new xs"
      using ne by simp
    show ?thesis
    proof (cases "x = d")
      case True
      with ex have "\<exists>x \<in> set xs. x \<noteq> d" by auto
      with ne False ne have "\<exists>x \<in> set (replace old new xs). x \<noteq> d"
        using exnew by (intro "2.IH"(3))
      with eq show ?thesis by auto
    next
      case neq: False
      with eq show ?thesis by auto
    qed
  qed
qed

lemma rfind_notin: "c \<notin> set s \<Longrightarrow> rfind c s = - 1"
  by (simp add: rfind_def)

lemma rfind_last_occurrence: "c \<notin> set y \<Longrightarrow> rfind c (x @ c # y) = int (length x)"
proof -
  assume n: "c \<notin> set y"
  have "takeWhile (\<lambda>x. x \<noteq> c) (rev y @ c # rev x) = rev y @ takeWhile (\<lambda>x. x \<noteq> c) (c # rev x)"
    using n by (intro takeWhile_append2) auto
  then have "takeWhile (\<lambda>x. x \<noteq> c) (rev (x @ c # y)) = rev y" by simp
  then show ?thesis by (simp add: rfind_def)
qed

lemma basename_no_sep: "CHR ''/'' \<notin> set y \<Longrightarrow> basename y = y"
  by (simp add: basename_def rfind_notin)

lemma basename_after_sep: "CHR ''/'' \<notin> set y \<Longrightarrow> basename (x @ CHR ''/'' # y) = y"
proof -
  assume "CHR ''/'' \<notin> set y"
  then have "rfind CHR ''/'' (x @ CHR ''/'' # y) = int (length x)"
    by (rule rfind_last_occurrence)
  moreover have "nat (int (length x) + 1) = Suc (length x)" by simp
  ultimately show ?thesis by (simp add: basename_def)
qed

lemma basename_cases:
  obtains (plain) "CHR ''/'' \<notin> set p" "basename p = p"
  | (dir) x y where "p = x @ CHR ''/'' # y" "CHR ''/'' \<notin> set y" "basename p = y"
proof (cases "CHR ''/'' \<in> set p")
  case False
  then show ?thesis using plain basename_no_sep by blast
next
  case True
  then obtain x y where "p = x @ CHR ''/'' # y" "CHR ''/'' \<notin> set y"
    using split_list_last by fast
  then show ?thesis using dir basename_after_sep by blast
qed

lemma basename_snoc: "c \<noteq> CHR ''/'' \<Longrightarrow> basename (v @ [c]) = basename v @ [c]"
proof (cases v rule: basename_cases)
  case plain
  assume "c \<noteq> CHR ''/''"
  with plain have "CHR ''/'' \<notin> set (v @ [c])" by simp
  then have "basename (v @ [c]) = v @ [c]" by (rule basename_no_sep)
  with plain show ?thesis by simp
next
  case (dir x y)
  assume "c \<noteq> CHR ''/''"
  with dir have "CHR ''/'' \<notin> set (y @ [c])" by simp
  then have "basename (x @ CHR ''/'' # (y @ [c])) = y @ [c]" by (rule basename_after_sep)
  with dir show ?thesis by simp
qed

lemma basename_sep_free: "CHR ''/'' \<notin> set (basename p)"
  by (cases p rule: basename_cases) auto

lemma basename_replace:
  assumes "old \<noteq> []" "CHR ''/'' \<notin> set old" "CHR ''/'' \<notin> set new"
  shows "basename (replace old new v) = replace old new (basename v)"
proof (cases v rule: basename_cases)
  case plain
  with assms have "CHR ''/'' \<notin> set (replace old new v)" by (intro replace_notin)
  then have "basename (replace old new v) = replace old new v" by (rule basename_no_sep)
  with plain show ?thesis by simp
next
  case (dir x y)
  have "replace old new v = replace old new x @ CHR ''/'' # replace old new y"
    unfolding dir(1) using assms(1,2) by (rule replace_split)
  moreover have "CHR ''/'' \<notin> set (replace old new y)"
    using assms(1) dir(2) assms(3) by (rule replace_notin)
  ultimately have "basename (replace old new v) = replace old new y"
    by (simp add: basename_after_sep)
  with dir show ?thesis by simp
qed

lemma splitext_dot_end:
  assumes "CHR ''/'' \<notin> set w" "\<exists>c \<in> set w. c \<noteq> CHR ''.''"
  shows "snd (splitext (w @ ''.'')) = ''.''"
proof -
  have sep: "rfind CHR ''/'' (w @ ''.'') = - 1" using assms(1) by (simp add: rfind_notin)
  have dot: "rfind CHR ''.'' (w @ ''.'') = int (length w)"
    using rfind_last_occurrence [of "CHR ''.''" "[]" w] by simp
  from assms(2) have "list_ex (\<lambda>c. c \<noteq> CHR ''.'') w" by (simp add: list_ex_iff)
  then show ?thesis by (simp add: splitext_def sep dot Let_def)
qed

lemma splitext_ext_dot:
  assumes "CHR ''/'' \<notin> set t" "snd (splitext t) = ''.''"
  shows "\<exists>w. t = w @ ''.'' \<and> (\<exists>c \<in> set w. c \<noteq> CHR ''.'')"
proof -
  have sep: "rfind CHR ''/'' t = - 1" using assms(1) by (simp add: rfind_notin)
  let ?d = "rfind CHR ''.'' t"
  from assms(2) have cond: "?d > - 1"
    and ex: "list_ex (\<lambda>c. c \<noteq> CHR ''.'') (take (nat ?d) t)"
    and ext: "drop (nat ?d) t = ''.''"
    by (auto simp: splitext_def sep Let_def split: if_splits)
  have "t = take (nat ?d) t @ drop (nat ?d) t" by simp
  with ext have "t = take (nat ?d) t @ ''.''" by simp
  moreover from ex have "\<exists>c \<in> set (take (nat ?d) t). c \<noteq> CHR ''.''" by (simp add: list_ex_iff)
  ultimately show ?thesis by blast
qed

lemma ext_dot_replace:
  assumes ext: "snd (splitext (basename u)) = ''.''"
    and old: "old \<noteq> []" "CHR ''/'' \<notin> set old" "CHR ''.'' \<notin> set old"
    and new: "CHR ''/'' \<notin> set new" "\<exists>c \<in> set new. c \<noteq> CHR ''.''"
  shows "snd (splitext (basename (replace old new u))) = ''.''"
proof -
  from splitext_ext_dot [OF basename_sep_free ext]
  obtain w where w: "basename u = w @ ''.''" and wdot: "\<exists>c \<in> set w. c \<noteq> CHR ''.''"
    by blast
  have "basename (replace old new u) = replace old new (basename u)"
    using old(1,2) new(1) by (rule basename_replace)
  also have "\<dots> = replace old new w @ ''.''"
    unfolding w using old(1,3) by (rule replace_snoc)
  finally have b: "basename (replace old new u) = replace old new w @ ''.''" .
  from basename_sep_free [of u] w have "CHR ''/'' \<notin> set w" by simp
  with old(1) have "CHR ''/'' \<notin> set (replace old new w)" using new(1) by (rule replace_notin)
  moreover have "\<exists>c \<in> set (replace old new w). c \<noteq> CHR ''.''"
    using old(1) wdot new(2) by (rule replace_keeps_other)
  ultimately show ?thesis unfolding b by (rule splitext_dot_end)
qed

lemma size_cases: "image_size \<in> set IMAGE_SIZES \<Longrightarrow>
  image_size = ''small'' \<or> image_size = ''medium'' \<or> image_size = ''large'' \<or> image_size = ''original''"
  by (simp add: IMAGE_SIZES_def)

lemma size_no_sep:
  assumes "image_size \<in> set IMAGE_SIZES"
  shows "CHR ''/'' \<notin> set image_size"
  using size_cases [OF assms] by (elim disjE) simp_all

lemma size_letter:
  assumes "image_size \<in> set IMAGE_SIZES"
  shows "\<exists>c \<in> set image_size. c \<noteq> CHR ''.''"
proof -
  have "hd image_size \<in> set image_size \<and> hd image_size \<noteq> CHR ''.''"
    using size_cases [OF assms] by (elim disjE) simp_all
  then show ?thesis by blast
qed

lemma ext_dot_resize:
  assumes "snd (splitext (basename u)) = ''.''" "image_size \<in> set IMAGE_SIZES"
  shows "snd (splitext (basename (replace ''medium'' image_size u))) = ''.''"
proof (rule ext_dot_replace)
  show "snd (splitext (basename u)) = ''.''" by (rule assms(1))
  show "''medium'' \<noteq> []" by simp
  show "CHR ''/'' \<notin> set ''medium''" by simp
  show "CHR ''.'' \<notin> set ''medium''" by simp
  show "CHR ''/'' \<notin> set image_size" using assms(2) by (rule size_no_sep)
  show "\<exists>c \<in> set image_size. c \<noteq> CHR ''.''" using assms(2) by (rule size_letter)
qed

lemma digit_not_sep: "k < 10 \<Longrightarrow> ''0123456789'' ! k \<noteq> CHR ''/''"
proof -
  assume "k < 10"
  then have "k = 0 \<or> k = 1 \<or> k = 2 \<or> k = 3 \<or> k = 4 \<or> k = 5 \<or> k = 6 \<or> k = 7 \<or> k = 8 \<or> k = 9"
    by arith
  then show ?thesis by (elim disjE) simp_all
qed

lemma str_nat_hd: "str_nat n \<noteq> [] \<and> hd (str_nat n) \<noteq> CHR ''/''"
proof (induction n rule: str_nat.induct)
  case (1 n)
  show ?case
  proof (cases "n < 10")
    case True
    then show ?thesis by (simp add: str_nat.simps [of n] digit_not_sep)
  next
    case False
    with 1 have "str_nat (n div 10) \<noteq> [] \<and> hd (str_nat (n div 10)) \<noteq> CHR ''/''" by simp
    with False show ?thesis by (simp add: str_nat.simps [of n])
  qed
qed

lemma str_int_hd: "str_int i \<noteq> [] \<and> hd (str_int i) \<noteq> CHR ''/''"
  using str_nat_hd [of "nat i"] by (simp add: str_int_def)

lemma path_join_relative:
  "b \<noteq> [] \<Longrightarrow> hd b \<noteq> CHR ''/'' \<Longrightarrow>
   path_join a (b @ e) = (if a = [] \<or> last a = CHR ''/'' then a else a @ ''/'') @ b @ e"
  by (simp add: path_join_def)

lemma image_path_inj:
  "path_join image_dir (str_int i @ e) = path_join image_dir (str_int i @ e') \<longleftrightarrow> e = e'"
  using str_int_hd [of i] by (simp add: path_join_relative)

section \<open>The work list\<close>

lemma get_urls_loop_work_list:
  "\<forall>r \<in> set rs. image_url_col r \<noteq> None \<Longrightarrow>
   get_urls_loop image_dir fs image_size force rs urls =
     Inr (urls @ work_list image_dir fs rs image_size force)"
proof (induction rs arbitrary: urls force)
  case Nil
  show ?case by (simp add: work_list_def)
next
  case (Cons r rs)
  from Cons.prems obtain u where u: "image_url_col r = Some u" by auto
  from Cons.prems have rest: "\<forall>r \<in> set rs. image_url_col r \<noteq> None" by simp
  note IH = Cons.IH [OF rest]
  show ?case
    using u by (simp add: IH work_list_def selected_def checked_ext_def url_ext_def url_of_def
        to_work_item_def Let_def)
qed

text \<open>
  C6, as stated: \<open>get_urls\<close> returns the rows whose extension is not \<open>.gif\<close> and for
  which no file named by the identifier plus that extension exists, unless \<open>force\<close> is
  set. This fails for a URL whose extension is a bare dot: with a file \<open>7.\<close> in the image
  directory the stated filter drops row 7, while \<open>get_urls\<close> looks for \<open>7.jpg\<close>, does
  not find it and keeps the row.
\<close>

theorem get_urls_claimed_counterexample:
  "get_urls ''images'' [''images/7.'' \<mapsto> ''x'']
     [\<lparr>id_col = 7, taxon_id_col = 1, image_url_col = Some ''http://h/medium.'',
       annotations_col = None\<rparr>]
     ''medium'' False = Inr [(7, 1, ''http://h/medium.'')]
   \<and> claimed_work_list ''images'' [''images/7.'' \<mapsto> ''x'']
     [\<lparr>id_col = 7, taxon_id_col = 1, image_url_col = Some ''http://h/medium.'',
       annotations_col = None\<rparr>]
     ''medium'' False = []"
  by code_simp

text \<open>
  C6, amended: on a table whose rows all carry an image URL, \<open>get_urls\<close> returns, in
  table order, the (id, taxon id, size-substituted URL) triples of exactly the rows whose
  URL extension is not \<open>.gif\<close> and for which no file named by the identifier plus the
  extension exists in the image directory or \<open>force\<close> is set, where a bare \<open>.\<close>
  extension is replaced by \<open>.jpg\<close> in that file name.
\<close>

theorem get_urls_work_list:
  assumes "\<forall>r \<in> set table. image_url_col r \<noteq> None"
  shows "get_urls image_dir fs table image_size force =
           Inr (work_list image_dir fs table image_size force)"
  unfolding get_urls_def
  using get_urls_loop_work_list [OF assms, of image_dir fs image_size force "[]"]
  by simp

text \<open>
  The scenario of the specification as the witness: \<open>42.jpg\<close> exists and \<open>force\<close> is
  off, so row 42 is left out; row 43 is a \<open>.gif\<close>; row 44 is kept.
\<close>

theorem get_urls_work_list_witness:
  "get_urls ''images'' [''images/42.jpg'' \<mapsto> ''old'']
     [\<lparr>id_col = 42, taxon_id_col = 5, image_url_col = Some ''http://h/42/medium.jpg'',
       annotations_col = None\<rparr>,
      \<lparr>id_col = 43, taxon_id_col = 5, image_url_col = Some ''http://h/43/medium.gif'',
       annotations_col = None\<rparr>,
      \<lparr>id_col = 44, taxon_id_col = 6, image_url_col = Some ''http://h/44/medium.png'',
       annotations_col = None\<rparr>]
     ''large'' False = Inr [(44, 6, ''http://h/44/large.png'')]"
proof -
  let ?table = "[\<lparr>id_col = 42, taxon_id_col = 5, image_url_col = Some ''http://h/42/medium.jpg'',
       annotations_col = None\<rparr>,
      \<lparr>id_col = 43, taxon_id_col = 5, image_url_col = Some ''http://h/43/medium.gif'',
       annotations_col = None\<rparr>,
      \<lparr>id_col = 44, taxon_id_col = 6, image_url_col = Some ''http://h/44/medium.png'',
       annotations_col = None\<rparr>]"
  have h: "\<forall>r \<in> set ?table. image_url_col r \<noteq> None" by simp
  have wl: "work_list ''images'' [''images/42.jpg'' \<mapsto> ''old''] ?table ''large'' False =
              [(44, 6, ''http://h/44/large.png'')]"
    by code_simp
  show ?thesis
    using get_urls_work_list [OF h, of "''images''" "[''images/42.jpg'' \<mapsto> ''old'']" "''large''" False]
    by (simp only: wl)
qed

text \<open>
  C10: for a row whose URL has the bare extension \<open>.\<close>, \<open>get_urls\<close> tests the file
  \<open>{id}.jpg\<close> (first conjunct: on the one-row table the row is kept exactly when that
  file is missing), a successful \<open>download_image\<close> of the row's work item writes
  \<open>{id}.\<close> (second conjunct), and therefore the row is in the work list again when
  \<open>get_urls\<close> runs, without \<open>force\<close>, on the files the download left (third conjunct).
  The size is one of \<open>IMAGE_SIZES\<close>, as the command line enforces, and \<open>{id}.jpg\<close> did
  not exist before the download.
\<close>

theorem bare_extension_not_prefiltered:
  assumes rows: "\<forall>r \<in> set table. image_url_col r \<noteq> None"
    and r: "r \<in> set table" "image_url_col r = Some u"
    and ext: "snd (splitext (basename u)) = ''.''"
    and size: "image_size \<in> set IMAGE_SIZES"
    and ok: "session (replace ''medium'' image_size u) = Response 200 (Inr content)"
    and absent: "\<not> path_exists (files w) (path_join image_dir (str_int (id_col r) @ ''.jpg''))"
  shows "get_urls image_dir fs [r] image_size False =
           (if path_exists fs (path_join image_dir (str_int (id_col r) @ ''.jpg''))
            then Inr [] else Inr [(id_col r, taxon_id_col r, replace ''medium'' image_size u)])
         \<and> files (download_image image_dir session (id_col r) (taxon_id_col r)
                    (replace ''medium'' image_size u) w)
             = (files w)(path_join image_dir (str_int (id_col r) @ ''.'') \<mapsto> content)
         \<and> (\<exists>items.
               get_urls image_dir
                 (files (download_image image_dir session (id_col r) (taxon_id_col r)
                    (replace ''medium'' image_size u) w))
                 table image_size False = Inr items
               \<and> (id_col r, taxon_id_col r, replace ''medium'' image_size u) \<in> set items)"
proof (intro conjI)
  have uext: "url_ext r = ''.''" using r(2) ext by (simp add: url_ext_def url_of_def)
  have item: "to_work_item image_size r = (id_col r, taxon_id_col r, replace ''medium'' image_size u)"
    using r(2) by (simp add: to_work_item_def url_of_def)
  have sel: "selected image_dir fs' False r \<longleftrightarrow>
      \<not> path_exists fs' (path_join image_dir (str_int (id_col r) @ ''.jpg''))" for fs'
    using uext by (simp add: selected_def checked_ext_def)
  have "\<forall>x \<in> set [r]. image_url_col x \<noteq> None" using r(2) by simp
  then have "get_urls image_dir fs [r] image_size False =
      Inr ([] @ work_list image_dir fs [r] image_size False)"
    unfolding get_urls_def by (rule get_urls_loop_work_list)
  then show "get_urls image_dir fs [r] image_size False =
           (if path_exists fs (path_join image_dir (str_int (id_col r) @ ''.jpg''))
            then Inr [] else Inr [(id_col r, taxon_id_col r, replace ''medium'' image_size u)])"
    by (simp add: work_list_def sel item)
  let ?w' = "download_image image_dir session (id_col r) (taxon_id_col r)
                    (replace ''medium'' image_size u) w"
  have ext': "snd (splitext (basename (replace ''medium'' image_size u))) = ''.''"
    using ext size by (rule ext_dot_resize)
  show written: "files ?w' = (files w)(path_join image_dir (str_int (id_col r) @ ''.'') \<mapsto> content)"
    by (simp add: download_image_def ok ext' logging_info_def Let_def)
  have "path_join image_dir (str_int (id_col r) @ ''.jpg'') \<noteq>
        path_join image_dir (str_int (id_col r) @ ''.'')"
    by (simp add: image_path_inj)
  with absent have "\<not> path_exists (files ?w') (path_join image_dir (str_int (id_col r) @ ''.jpg''))"
    unfolding written by (simp add: path_exists_def)
  then have "selected image_dir (files ?w') False r" by (simp add: sel)
  then have "to_work_item image_size r \<in> set (work_list image_dir (files ?w') table image_size False)"
    using r(1) by (simp add: work_list_def)
  moreover have "get_urls image_dir (files ?w') table image_size False =
      Inr ([] @ work_list image_dir (files ?w') table image_size False)"
    unfolding get_urls_def using rows by (rule get_urls_loop_work_list)
  ultimately show "\<exists>items. get_urls image_dir (files ?w') table image_size False = Inr items
               \<and> (id_col r, taxon_id_col r, replace ''medium'' image_size u) \<in> set items"
    by (simp add: item)
qed

theorem bare_extension_not_prefiltered_witness:
  "files (download_image ''images''
            (\<lambda>url. if url = ''http://h/large.'' then Response 200 (Inr ''img'')
                   else Raised (ClientError ''refused''))
            7 1 ''http://h/large.'' \<lparr>files = Map.empty, logged = []\<rparr>)
     = [''images/7.'' \<mapsto> ''img'']
   \<and> get_urls ''images'' [''images/7.'' \<mapsto> ''img'']
         [\<lparr>id_col = 7, taxon_id_col = 1, image_url_col = Some ''http://h/medium.'',
           annotations_col = None\<rparr>]
         ''large'' False = Inr [(7, 1, ''http://h/large.'')]"
proof -
  let ?r = "\<lparr>id_col = 7, taxon_id_col = 1, image_url_col = Some ''http://h/medium.'',
             annotations_col = None\<rparr>"
  let ?session = "\<lambda>url. if url = ''http://h/large.'' then Response 200 (Inr ''img'')
                   else Raised (ClientError ''refused'')"
  let ?w = "\<lparr>files = Map.empty, logged = []\<rparr>"
  have h1: "\<forall>r \<in> set [?r]. image_url_col r \<noteq> None" by simp
  have h2: "?r \<in> set [?r]" by simp
  have h3: "image_url_col ?r = Some ''http://h/medium.''" by simp
  have h4: "snd (splitext (basename ''http://h/medium.'')) = ''.''" by code_simp
  have h5: "''large'' \<in> set IMAGE_SIZES" by (simp add: IMAGE_SIZES_def)
  have h6: "?session (replace ''medium'' ''large'' ''http://h/medium.'') = Response 200 (Inr ''img'')"
    by simp
  have h7: "\<not> path_exists (files ?w) (path_join ''images'' (str_int (id_col ?r) @ ''.jpg''))"
    by (simp add: path_exists_def)
  have p: "path_join ''images'' (str_int 7 @ ''.'') = ''images/7.''" by code_simp
  have q: "path_join ''images'' (str_int 7 @ ''.jpg'') = ''images/7.jpg''" by code_simp
  note inst = bare_extension_not_prefiltered
    [where table = "[?r]" and r = ?r and u = "''http://h/medium.''" and image_size = "''large''"
       and session = ?session and content = "''img''" and w = ?w and image_dir = "''images''"
       and fs = "[''images/7.'' \<mapsto> ''img'']", OF h1 h2 h3 h4 h5 h6 h7]
  from inst show ?thesis by (simp add: p q path_exists_def)
qed

section \<open>The pending observations\<close>

text \<open>
  C7: \<open>get_observation_ids\<close> returns the identifiers of exactly the rows whose
  \<open>annotations\<close> column is \<open>NULL\<close>, one per row and in table order.
\<close>

theorem get_observation_ids_exact:
  "get_observation_ids table = map id_col (filter (\<lambda>r. annotations_col r = None) table)
   \<and> set (get_observation_ids table) =
       {i. \<exists>r. r \<in> set table \<and> annotations_col r = None \<and> id_col r = i}"
proof -
  have "get_observation_ids table = map id_col (filter (\<lambda>r. annotations_col r = None) table)"
    by (simp add: get_observation_ids_def select_id_where_annotations_is_null_def comp_def)
  then show ?thesis by auto
qed

section \<open>One turn of the annotation worker\<close>

lemma try_block_commit:
  assumes total: "map_of kvs ''total_results'' = Some (JNum 1)"
    and results: "map_of kvs ''results'' = Some (JArr [JObj obs])"
    and anns: "map_of obs ''annotations'' = Some (JArr items)"
    and l: "labels_of items = Inr (map JStr labels)" 
    and j: "str_join '','' (map JStr labels) = Inr joined"
    and ne: "labels \<noteq> []"
  shows "try_block (Response 200 (Inr (JObj kvs))) observation_id st
     = Inr (conn_commit (conn_execute_update joined observation_id
          (st\<lparr>printed := printed st @ [(observation_id, joined)]\<rparr>)))"
proof -
  have 1: "subscript_key (JObj kvs) ''total_results'' = Inr (JNum 1)"
    by (simp add: subscript_key_def total)
  have 2: "subscript_key (JObj kvs) ''results'' = Inr (JArr [JObj obs])"
    by (simp add: subscript_key_def results)
  have 3: "subscript_zero (JArr [JObj obs]) = Inr (JObj obs)"
    by (simp add: subscript_zero_def)
  have 4: "dict_get (JObj obs) ''annotations'' (JArr []) = Inr (JArr items)"
    by (simp add: dict_get_def anns)
  have 5: "py_iter (JArr items) = Inr items"
    by (simp add: py_iter_def)
  have 6: "py_eq_int (JNum 1) 1" by (simp add: py_eq_int_def)
  have 7: "length (map JStr labels) > 0" using ne by simp
  show ?thesis
    unfolding try_block_def
    by (simp only: 1 2 3 4 5 6 7 l j http_result.case sum.case if_True refl)
qed


lemma labels_of_well_formed:
  "map label_of items = map Some labels \<Longrightarrow> labels_of items = Inr (map JStr labels)"
proof (induction items arbitrary: labels)
  case Nil
  then show ?case by simp
next
  case (Cons a items)
  from Cons.prems obtain l ls where labels: "labels = l # ls"
    and a: "label_of a = Some l" and rest: "map label_of items = map Some ls"
    by (cases labels) auto
  from a obtain kvs where kvs: "a = JObj kvs" by (cases a) simp_all
  from a kvs obtain v where v: "map_of kvs ''controlled_value'' = Some v"
    by (cases "map_of kvs ''controlled_value''") simp_all
  from a kvs v obtain cv where cv: "v = JObj cv" by (cases v) simp_all
  from a kvs v cv obtain lv where lv: "map_of cv ''label'' = Some lv"
    by (cases "map_of cv ''label''") simp_all
  from a kvs v cv lv have lab: "lv = JStr l" by (cases lv) simp_all
  have 1: "subscript_key a ''controlled_value'' = Inr (JObj cv)"
    by (simp add: subscript_key_def kvs v cv)
  have 2: "subscript_key (JObj cv) ''label'' = Inr (JStr l)"
    by (simp add: subscript_key_def lv lab)
  have 3: "labels_of items = Inr (map JStr ls)" using rest by (rule Cons.IH)
  show ?case unfolding labels by (simp only: labels_of.simps 1 2 3 sum.case list.map)
qed

lemma str_join_strings: "str_join '','' (map JStr labels) = Inr (comma_join labels)"
  by (induction labels rule: comma_join.induct) simp_all

lemma loop_body_unfolded:
  "loop_body session observation_id st =
     task_done
       (case try_block (session (requests st) observation_id) observation_id
               (st\<lparr>requests := Suc (requests st)\<rparr>) of
          Inl e \<Rightarrow>
            queue_put observation_id
              (log_info (ScrapeFailedExn observation_id e) (st\<lparr>requests := Suc (requests st)\<rparr>))
        | Inr st' \<Rightarrow> st')"
  by (simp only: loop_body_def Let_def)

lemma sql_update_sets:
  "r \<in> set (sql_update_annotations a i table) \<Longrightarrow> id_col r = i \<Longrightarrow> annotations_col r = Some a"
proof (induction table)
  case Nil
  then show ?case by (simp add: sql_update_annotations_def)
next
  case (Cons x table)
  from Cons.prems(1) have "r = (if id_col x = i then x\<lparr>annotations_col := Some a\<rparr> else x)
      \<or> r \<in> set (sql_update_annotations a i table)"
    by (simp add: sql_update_annotations_def)
  then show ?case
  proof
    assume r: "r = (if id_col x = i then x\<lparr>annotations_col := Some a\<rparr> else x)"
    show ?thesis
    proof (cases "id_col x = i")
      case True
      with r show ?thesis by simp
    next
      case False
      with r Cons.prems(2) show ?thesis by simp
    qed
  next
    assume "r \<in> set (sql_update_annotations a i table)"
    then show ?thesis using Cons.prems(2) by (rule Cons.IH)
  qed
qed

text \<open>
  C5: when the GET answers 200 with a document that reports one result, holds that one
  record, and the record carries at least one annotation with a label, the turn of the
  worker sets the \<open>annotations\<close> column of the rows with the item's identifier to the
  labels joined with commas, and commits: at the end of the turn, before the next item
  is taken, the database file holds the updated table. Nothing is put back on the queue
  and nothing is logged.
\<close>

theorem commit_on_success:
  assumes resp: "session (requests st) observation_id = Response 200 (Inr (JObj kvs))"
    and total: "map_of kvs ''total_results'' = Some (JNum 1)"
    and results: "map_of kvs ''results'' = Some (JArr [JObj obs])"
    and anns: "map_of obs ''annotations'' = Some (JArr items)"
    and labels: "map label_of items = map Some labels" "labels \<noteq> []"
    and pending: "0 < unfinished st"
  shows "loop_body session observation_id st =
           Inr (st\<lparr>requests := Suc (requests st),
                   printed := printed st @ [(observation_id, comma_join labels)],
                   conn_table := sql_update_annotations (comma_join labels) observation_id (conn_table st),
                   database := sql_update_annotations (comma_join labels) observation_id (conn_table st),
                   unfinished := unfinished st - 1\<rparr>)
         \<and> (\<forall>r \<in> set (sql_update_annotations (comma_join labels) observation_id (conn_table st)).
               id_col r = observation_id \<longrightarrow> annotations_col r = Some (comma_join labels))"
proof
  let ?st1 = "st\<lparr>requests := Suc (requests st)\<rparr>"
  have l: "labels_of items = Inr (map JStr labels)" using labels(1) by (rule labels_of_well_formed)
  have t: "try_block (Response 200 (Inr (JObj kvs))) observation_id ?st1
     = Inr (conn_commit (conn_execute_update (comma_join labels) observation_id
          (?st1\<lparr>printed := printed ?st1 @ [(observation_id, comma_join labels)]\<rparr>)))"
    using total results anns l str_join_strings labels(2) by (rule try_block_commit)
  have "loop_body session observation_id st =
      task_done (conn_commit (conn_execute_update (comma_join labels) observation_id
          (?st1\<lparr>printed := printed ?st1 @ [(observation_id, comma_join labels)]\<rparr>)))"
    by (simp only: loop_body_unfolded resp t sum.case)
  also have "\<dots> = Inr (st\<lparr>requests := Suc (requests st),
                   printed := printed st @ [(observation_id, comma_join labels)],
                   conn_table := sql_update_annotations (comma_join labels) observation_id (conn_table st),
                   database := sql_update_annotations (comma_join labels) observation_id (conn_table st),
                   unfinished := unfinished st - 1\<rparr>)"
    using pending by (simp add: task_done_def conn_commit_def conn_execute_update_def)
  finally show "loop_body session observation_id st =
           Inr (st\<lparr>requests := Suc (requests st),
                   printed := printed st @ [(observation_id, comma_join labels)],
                   conn_table := sql_update_annotations (comma_join labels) observation_id (conn_table st),
                   database := sql_update_annotations (comma_join labels) observation_id (conn_table st),
                   unfinished := unfinished st - 1\<rparr>)" .
  show "\<forall>r \<in> set (sql_update_annotations (comma_join labels) observation_id (conn_table st)).
               id_col r = observation_id \<longrightarrow> annotations_col r = Some (comma_join labels)"
    using sql_update_sets by blast
qed

theorem commit_on_success_witness:
  "loop_body
     (\<lambda>n i. Response 200 (Inr (JObj
        [(''total_results'', JNum 1),
         (''results'', JArr [JObj
            [(''id'', JNum 5),
             (''annotations'', JArr
                [JObj [(''controlled_value'', JObj [(''label'', JStr ''Alive'')])],
                 JObj [(''controlled_value'', JObj [(''label'', JStr ''Adult'')])]])]])])))
     5
     \<lparr>queue = [6], unfinished = 2,
      conn_table = [\<lparr>id_col = 5, taxon_id_col = 9, image_url_col = None, annotations_col = None\<rparr>,
                    \<lparr>id_col = 6, taxon_id_col = 9, image_url_col = None, annotations_col = None\<rparr>],
      database = [\<lparr>id_col = 5, taxon_id_col = 9, image_url_col = None, annotations_col = None\<rparr>,
                  \<lparr>id_col = 6, taxon_id_col = 9, image_url_col = None, annotations_col = None\<rparr>],
      requests = 0, printed = [], log_records = []\<rparr>
   = Inr \<lparr>queue = [6], unfinished = 1,
      conn_table = [\<lparr>id_col = 5, taxon_id_col = 9, image_url_col = None,
                      annotations_col = Some ''Alive,Adult''\<rparr>,
                    \<lparr>id_col = 6, taxon_id_col = 9, image_url_col = None, annotations_col = None\<rparr>],
      database = [\<lparr>id_col = 5, taxon_id_col = 9, image_url_col = None,
                    annotations_col = Some ''Alive,Adult''\<rparr>,
                  \<lparr>id_col = 6, taxon_id_col = 9, image_url_col = None, annotations_col = None\<rparr>],
      requests = 1, printed = [(5, ''Alive,Adult'')], log_records = []\<rparr>"
proof -
  let ?items = "[JObj [(''controlled_value'', JObj [(''label'', JStr ''Alive'')])],
                 JObj [(''controlled_value'', JObj [(''label'', JStr ''Adult'')])]]"
  let ?obs = "[(''id'', JNum 5), (''annotations'', JArr ?items)]"
  let ?kvs = "[(''total_results'', JNum 1), (''results'', JArr [JObj ?obs])]"
  let ?session = "\<lambda>(n::nat) (i::int). Response 200 (Inr (JObj ?kvs)) :: json http_result"
  let ?st = "\<lparr>queue = [6], unfinished = 2,
      conn_table = [\<lparr>id_col = 5, taxon_id_col = 9, image_url_col = None, annotations_col = None\<rparr>,
                    \<lparr>id_col = 6, taxon_id_col = 9, image_url_col = None, annotations_col = None\<rparr>],
      database = [\<lparr>id_col = 5, taxon_id_col = 9, image_url_col = None, annotations_col = None\<rparr>,
                  \<lparr>id_col = 6, taxon_id_col = 9, image_url_col = None, annotations_col = None\<rparr>],
      requests = 0, printed = [], log_records = []\<rparr>"
  have h1: "?session (requests ?st) 5 = Response 200 (Inr (JObj ?kvs))" by simp
  have h2: "map_of ?kvs ''total_results'' = Some (JNum 1)" by simp
  have h3: "map_of ?kvs ''results'' = Some (JArr [JObj ?obs])" by simp
  have h4: "map_of ?obs ''annotations'' = Some (JArr ?items)" by simp
  have h5: "map label_of ?items = map Some [''Alive'', ''Adult'']" by simp
  have h6: "[''Alive'', ''Adult''] \<noteq> []" by simp
  have h7: "0 < unfinished ?st" by simp
  note inst = commit_on_success [where session = ?session and st = ?st and observation_id = 5
      and kvs = ?kvs and obs = ?obs and items = ?items and labels = "[''Alive'', ''Adult'']",
      OF h1 h2 h3 h4 h5 h6 h7]
  from inst show ?thesis by (simp add: sql_update_annotations_def)
qed

text \<open>
  C4, as stated, fails where the precondition that fails is the missing label. A 200
  response with exactly one record that carries no annotations is neither committed nor
  put back: the turn ends with the queue and the log as they were (the item was the only
  one, so the queue stays empty), and only the counters have moved.
\<close>

theorem no_label_counterexample:
  "loop_body
     (\<lambda>n i. Response 200 (Inr (JObj
        [(''total_results'', JNum 1), (''results'', JArr [JObj [(''id'', JNum 5)]])])))
     5
     \<lparr>queue = [], unfinished = 1, conn_table = [], database = [],
      requests = 0, printed = [], log_records = []\<rparr>
   = Inr \<lparr>queue = [], unfinished = 0, conn_table = [], database = [],
      requests = 1, printed = [], log_records = []\<rparr>"
  by code_simp

lemma try_block_bad_count:
  assumes total: "map_of kvs ''total_results'' = Some total_results"
    and ne: "\<not> py_eq_int total_results 1"
  shows "try_block (Response 200 (Inr (JObj kvs))) observation_id st =
           Inr (queue_put observation_id
                 (log_info (ScrapeFailedResults observation_id total_results) st))"
proof -
  have 1: "subscript_key (JObj kvs) ''total_results'' = Inr total_results"
    by (simp add: subscript_key_def total)
  show ?thesis
    unfolding try_block_def
    by (simp only: 1 ne http_result.case sum.case if_True if_False refl)
qed

lemma try_block_no_label:
  assumes total: "map_of kvs ''total_results'' = Some (JNum 1)"
    and results: "map_of kvs ''results'' = Some (JArr [JObj obs])"
    and anns: "map_of obs ''annotations'' = None \<or> map_of obs ''annotations'' = Some (JArr [])"
  shows "try_block (Response 200 (Inr (JObj kvs))) observation_id st = Inr st"
proof -
  have 1: "subscript_key (JObj kvs) ''total_results'' = Inr (JNum 1)"
    by (simp add: subscript_key_def total)
  have 2: "subscript_key (JObj kvs) ''results'' = Inr (JArr [JObj obs])"
    by (simp add: subscript_key_def results)
  have 3: "subscript_zero (JArr [JObj obs]) = Inr (JObj obs)"
    by (simp add: subscript_zero_def)
  have 4: "dict_get (JObj obs) ''annotations'' (JArr []) = Inr (JArr [])"
    using anns by (auto simp: dict_get_def)
  have 5: "py_iter (JArr []) = Inr []"
    by (simp add: py_iter_def)
  have 6: "py_eq_int (JNum 1) 1" by (simp add: py_eq_int_def)
  have 7: "\<not> length ([] :: json list) > 0" by simp
  have 8: "labels_of [] = Inr []" by simp
  show ?thesis
    unfolding try_block_def
    by (simp only: 1 2 3 4 5 6 7 8 http_result.case sum.case if_True if_False refl)
qed

text \<open>
  C4, amended. For a 200 response whose document reports a result count other than one,
  the item is put back on the queue unchanged, one record is logged at level \<open>INFO\<close>
  with the observed count, and neither the connection's table nor the database file
  changes. For a 200 response with one result whose single record has no annotations, the
  table and the file do not change either, and the item is not put back and nothing is
  logged.
\<close>

theorem precondition_failure:
  assumes resp: "session (requests st) observation_id = Response 200 (Inr (JObj kvs))"
    and total: "map_of kvs ''total_results'' = Some total_results"
  shows "(\<not> py_eq_int total_results 1 \<longrightarrow>
            loop_body session observation_id st =
              Inr (st\<lparr>requests := Suc (requests st),
                      queue := queue st @ [observation_id],
                      log_records := log_records st @
                        [(INFO, ScrapeFailedResults observation_id total_results)]\<rparr>))
       \<and> (total_results = JNum 1 \<and> map_of kvs ''results'' = Some (JArr [JObj obs]) \<and>
            (map_of obs ''annotations'' = None \<or> map_of obs ''annotations'' = Some (JArr [])) \<and>
            0 < unfinished st \<longrightarrow>
            loop_body session observation_id st =
              Inr (st\<lparr>requests := Suc (requests st), unfinished := unfinished st - 1\<rparr>))"
proof (intro conjI impI)
  let ?st1 = "st\<lparr>requests := Suc (requests st)\<rparr>"
  assume ne: "\<not> py_eq_int total_results 1"
  have t: "try_block (Response 200 (Inr (JObj kvs))) observation_id ?st1 =
           Inr (queue_put observation_id
                 (log_info (ScrapeFailedResults observation_id total_results) ?st1))"
    using total ne by (rule try_block_bad_count)
  have "loop_body session observation_id st =
      task_done (queue_put observation_id
                 (log_info (ScrapeFailedResults observation_id total_results) ?st1))"
    by (simp only: loop_body_unfolded resp t sum.case)
  also have "\<dots> = Inr (st\<lparr>requests := Suc (requests st),
                      queue := queue st @ [observation_id],
                      log_records := log_records st @
                        [(INFO, ScrapeFailedResults observation_id total_results)]\<rparr>)"
    by (simp add: task_done_def queue_put_def log_info_def)
  finally show "loop_body session observation_id st =
              Inr (st\<lparr>requests := Suc (requests st),
                      queue := queue st @ [observation_id],
                      log_records := log_records st @
                        [(INFO, ScrapeFailedResults observation_id total_results)]\<rparr>)" .
next
  let ?st1 = "st\<lparr>requests := Suc (requests st)\<rparr>"
  assume a: "total_results = JNum 1 \<and> map_of kvs ''results'' = Some (JArr [JObj obs]) \<and>
            (map_of obs ''annotations'' = None \<or> map_of obs ''annotations'' = Some (JArr [])) \<and>
            0 < unfinished st"
  from a total have t1: "map_of kvs ''total_results'' = Some (JNum 1)" by simp
  from a have r: "map_of kvs ''results'' = Some (JArr [JObj obs])" by simp
  from a have an: "map_of obs ''annotations'' = None \<or> map_of obs ''annotations'' = Some (JArr [])"
    by simp
  from a have pending: "0 < unfinished st" by simp
  have t: "try_block (Response 200 (Inr (JObj kvs))) observation_id ?st1 = Inr ?st1"
    using t1 r an by (rule try_block_no_label)
  have "loop_body session observation_id st = task_done ?st1"
    by (simp only: loop_body_unfolded resp t sum.case)
  also have "\<dots> = Inr (st\<lparr>requests := Suc (requests st), unfinished := unfinished st - 1\<rparr>)"
    using pending by (simp add: task_done_def)
  finally show "loop_body session observation_id st =
              Inr (st\<lparr>requests := Suc (requests st), unfinished := unfinished st - 1\<rparr>)" .
qed


theorem precondition_failure_witness:
  "loop_body
     (\<lambda>n i. Response 200 (Inr (JObj [(''total_results'', JNum 0), (''results'', JArr [])])))
     5
     \<lparr>queue = [6], unfinished = 2, conn_table = [], database = [],
      requests = 0, printed = [], log_records = []\<rparr>
   = Inr \<lparr>queue = [6, 5], unfinished = 2, conn_table = [], database = [],
      requests = 1, printed = [],
      log_records = [(INFO, ScrapeFailedResults 5 (JNum 0))]\<rparr>
   \<and> loop_body
     (\<lambda>n i. Response 200 (Inr (JObj
        [(''total_results'', JNum 1),
         (''results'', JArr [JObj [(''id'', JNum 5), (''annotations'', JArr [])]])])))
     5
     \<lparr>queue = [6], unfinished = 2, conn_table = [], database = [],
      requests = 0, printed = [], log_records = []\<rparr>
   = Inr \<lparr>queue = [6], unfinished = 1, conn_table = [], database = [],
      requests = 1, printed = [], log_records = []\<rparr>"
proof
  let ?st = "\<lparr>queue = [6], unfinished = 2, conn_table = [], database = [],
      requests = 0, printed = [], log_records = []\<rparr>"
  let ?kvs = "[(''total_results'', JNum 0), (''results'', JArr [])]"
  let ?session = "\<lambda>(n::nat) (i::int). Response 200 (Inr (JObj ?kvs)) :: json http_result"
  have h1: "?session (requests ?st) 5 = Response 200 (Inr (JObj ?kvs))" by simp
  have h2: "map_of ?kvs ''total_results'' = Some (JNum 0)" by simp
  have h3: "\<not> py_eq_int (JNum 0) 1" by (simp add: py_eq_int_def)
  note inst = precondition_failure [where session = ?session and st = ?st and observation_id = 5
      and kvs = ?kvs and total_results = "JNum 0", OF h1 h2, THEN conjunct1, THEN mp, OF h3]
  from inst show "loop_body ?session 5 ?st
     = Inr \<lparr>queue = [6, 5], unfinished = 2, conn_table = [], database = [],
      requests = 1, printed = [],
      log_records = [(INFO, ScrapeFailedResults 5 (JNum 0))]\<rparr>"
    by simp
next
  let ?st = "\<lparr>queue = [6], unfinished = 2, conn_table = [], database = [],
      requests = 0, printed = [], log_records = []\<rparr>"
  let ?obs = "[(''id'', JNum 5), (''annotations'', JArr [])]"
  let ?kvs = "[(''total_results'', JNum 1), (''results'', JArr [JObj ?obs])]"
  let ?session = "\<lambda>(n::nat) (i::int). Response 200 (Inr (JObj ?kvs)) :: json http_result"
  have h1: "?session (requests ?st) 5 = Response 200 (Inr (JObj ?kvs))" by simp
  have h2: "map_of ?kvs ''total_results'' = Some (JNum 1)" by simp
  have h3: "JNum 1 = JNum 1 \<and> map_of ?kvs ''results'' = Some (JArr [JObj ?obs]) \<and>
            (map_of ?obs ''annotations'' = None \<or> map_of ?obs ''annotations'' = Some (JArr [])) \<and>
            0 < unfinished ?st" by simp
  note inst = precondition_failure [where session = ?session and st = ?st and observation_id = 5
      and kvs = ?kvs and total_results = "JNum 1" and obs = ?obs,
      OF h1 h2, THEN conjunct2, THEN mp, OF h3]
  from inst show "loop_body ?session 5 ?st
     = Inr \<lparr>queue = [6], unfinished = 1, conn_table = [], database = [],
      requests = 1, printed = [], log_records = []\<rparr>"
    by simp
qed

section \<open>The worker loop\<close>

lemma try_block_counted:
  "try_block r observation_id s = Inr s' \<Longrightarrow>
   length (queue s') + unfinished s = length (queue s) + unfinished s'"
  unfolding try_block_def
  by (auto simp: queue_put_def log_info_def conn_commit_def conn_execute_update_def
      split: http_result.splits sum.splits if_splits)

lemma loop_body_counted:
  assumes "length (queue st) < unfinished st"
  shows "\<exists>st'. loop_body session observation_id st = Inr st' \<and> queue_counted st'"
proof -
  let ?st1 = "st\<lparr>requests := Suc (requests st)\<rparr>"
  let ?r = "session (requests st) observation_id"
  let ?st2 = "case try_block ?r observation_id ?st1 of
          Inl e \<Rightarrow> queue_put observation_id (log_info (ScrapeFailedExn observation_id e) ?st1)
        | Inr st' \<Rightarrow> st'"
  have body: "loop_body session observation_id st = task_done ?st2"
    by (simp only: loop_body_def Let_def)
  have "length (queue ?st2) + unfinished st = length (queue st) + unfinished ?st2"
  proof (cases "try_block ?r observation_id ?st1")
    case (Inl e)
    then show ?thesis by (simp add: queue_put_def log_info_def)
  next
    case (Inr s')
    from try_block_counted [OF Inr] Inr show ?thesis by simp
  qed
  with assms have lt: "length (queue ?st2) < unfinished ?st2" by arith
  then have "task_done ?st2 = Inr (?st2\<lparr>unfinished := unfinished ?st2 - 1\<rparr>)"
    by (simp add: task_done_def)
  moreover from lt have "queue_counted (?st2\<lparr>unfinished := unfinished ?st2 - 1\<rparr>)"
    by (simp add: queue_counted_def)
  ultimately show ?thesis using body by simp
qed

lemma scrape_annotations_never_returns:
  assumes "queue_counted st"
  shows "scrape_annotations session st = None"
proof (rule ccontr)
  assume "scrape_annotations session st \<noteq> None"
  then obtain res where ret: "scrape_annotations session st = Some res" by blast
  have "\<not> queue_counted st"
  proof (rule scrape_annotations.raw_induct
      [where P = "\<lambda>session st res. \<not> queue_counted st", OF _ ret])
    fix f session st res
    assume IH: "\<And>session st res. f session st = Some res \<Longrightarrow> \<not> queue_counted st"
      and eq: "(case queue_get st of
                  None \<Rightarrow> None
                | Some (observation_id, st1) \<Rightarrow>
                    (case loop_body session observation_id st1 of
                       Inl e \<Rightarrow> Some (Inl e, st1)
                     | Inr st2 \<Rightarrow> f session st2)) = Some res"
    show "\<not> queue_counted st"
    proof
      assume inv: "queue_counted st"
      from eq obtain observation_id q where q: "queue st = observation_id # q"
        by (cases "queue st") (simp_all add: queue_get_def)
      let ?st1 = "st\<lparr>queue := q\<rparr>"
      from q have get: "queue_get st = Some (observation_id, ?st1)" by (simp add: queue_get_def)
      from inv q have "length (queue ?st1) < unfinished ?st1" by (simp add: queue_counted_def)
      then obtain st2 where body: "loop_body session observation_id ?st1 = Inr st2"
        and inv2: "queue_counted st2"
        using loop_body_counted by blast
      from eq get body have "f session st2 = Some res" by simp
      then have "\<not> queue_counted st2" by (rule IH)
      with inv2 show False by contradiction
    qed
  qed
  with assms show False by contradiction
qed

lemma fold_queue_put:
  "queue (fold queue_put ids st) = queue st @ ids \<and>
   unfinished (fold queue_put ids st) = unfinished st + length ids"
  by (induction ids arbitrary: st) (simp_all add: queue_put_def)

lemma init_scraper_counted: "queue_counted (init_scraper ids db)"
  by (simp add: queue_counted_def init_scraper_def fold_queue_put)

lemma run_never_returns:
  "scrape_annotations_from_ids session ids limit proxy db = None"
proof -
  have "scrape_annotations session (init_scraper ids db) = None"
    using init_scraper_counted by (rule scrape_annotations_never_returns)
  then show ?thesis by (simp add: scrape_annotations_from_ids_def)
qed

text \<open>
  C2 fails on the code: the run does not return. \<open>scrape_annotations\<close> is a
  \<open>while True\<close> loop that nothing leaves, and \<open>scrape_annotations_from_ids\<close> awaits it
  directly, without \<open>queue.join()\<close>. First conjunct: for every session, list of ids and
  table the run has no result. Second and third conjunct, at the input \<open>[5]\<close> with a
  session that succeeds at once: after one turn the queue is empty, the count of
  unfinished tasks is 0 and the annotation is committed, and from that state the worker
  still does not return.
\<close>

theorem run_blocks_on_drained_queue:
  "scrape_annotations_from_ids session ids limit proxy db = None
   \<and> worker_turns 1
       (\<lambda>n i. Response 200 (Inr (JObj
          [(''total_results'', JNum 1),
           (''results'', JArr [JObj
              [(''annotations'', JArr
                  [JObj [(''controlled_value'', JObj [(''label'', JStr ''Alive'')])]])]])])))
       (init_scraper [5]
          [\<lparr>id_col = 5, taxon_id_col = 9, image_url_col = None, annotations_col = None\<rparr>])
     = \<lparr>queue = [], unfinished = 0,
        conn_table = [\<lparr>id_col = 5, taxon_id_col = 9, image_url_col = None,
                        annotations_col = Some ''Alive''\<rparr>],
        database = [\<lparr>id_col = 5, taxon_id_col = 9, image_url_col = None,
                      annotations_col = Some ''Alive''\<rparr>],
        requests = 1, printed = [(5, ''Alive'')], log_records = []\<rparr>
   \<and> scrape_annotations session'
       \<lparr>queue = [], unfinished = 0,
        conn_table = [\<lparr>id_col = 5, taxon_id_col = 9, image_url_col = None,
                        annotations_col = Some ''Alive''\<rparr>],
        database = [\<lparr>id_col = 5, taxon_id_col = 9, image_url_col = None,
                      annotations_col = Some ''Alive''\<rparr>],
        requests = 1, printed = [(5, ''Alive'')], log_records = []\<rparr> = None"
proof (intro conjI)
  show "scrape_annotations_from_ids session ids limit proxy db = None"
    by (rule run_never_returns)
  show "worker_turns 1
       (\<lambda>n i. Response 200 (Inr (JObj
          [(''total_results'', JNum 1),
           (''results'', JArr [JObj
              [(''annotations'', JArr
                  [JObj [(''controlled_value'', JObj [(''label'', JStr ''Alive'')])]])]])])))
       (init_scraper [5]
          [\<lparr>id_col = 5, taxon_id_col = 9, image_url_col = None, annotations_col = None\<rparr>])
     = \<lparr>queue = [], unfinished = 0,
        conn_table = [\<lparr>id_col = 5, taxon_id_col = 9, image_url_col = None,
                        annotations_col = Some ''Alive''\<rparr>],
        database = [\<lparr>id_col = 5, taxon_id_col = 9, image_url_col = None,
                      annotations_col = Some ''Alive''\<rparr>],
        requests = 1, printed = [(5, ''Alive'')], log_records = []\<rparr>"
    by code_simp
  show "scrape_annotations session'
       \<lparr>queue = [], unfinished = 0,
        conn_table = [\<lparr>id_col = 5, taxon_id_col = 9, image_url_col = None,
                        annotations_col = Some ''Alive''\<rparr>],
        database = [\<lparr>id_col = 5, taxon_id_col = 9, image_url_col = None,
                      annotations_col = Some ''Alive''\<rparr>],
        requests = 1, printed = [(5, ''Alive'')], log_records = []\<rparr> = None"
    by (rule scrape_annotations_never_returns) (simp add: queue_counted_def)
qed

lemma try_block_persists:
  "try_block r observation_id s = Inr s' \<Longrightarrow>
   (printed s' = printed s \<and> conn_table s' = conn_table s \<and> database s' = database s)
   \<or> (\<exists>j. printed s' = printed s @ [(observation_id, j)]
          \<and> conn_table s' = sql_update_annotations j observation_id (conn_table s)
          \<and> database s' = sql_update_annotations j observation_id (conn_table s))"
  unfolding try_block_def
  by (auto simp: queue_put_def log_info_def conn_commit_def conn_execute_update_def
      split: http_result.splits sum.splits if_splits)

lemma loop_body_persists:
  assumes "loop_body session observation_id st = Inr st'" and "persisted db st"
  shows "persisted db st'"
proof -
  let ?st1 = "st\<lparr>requests := Suc (requests st)\<rparr>"
  let ?r = "session (requests st) observation_id"
  let ?st2 = "case try_block ?r observation_id ?st1 of
          Inl e \<Rightarrow> queue_put observation_id (log_info (ScrapeFailedExn observation_id e) ?st1)
        | Inr s \<Rightarrow> s"
  have body: "loop_body session observation_id st = task_done ?st2"
    by (simp only: loop_body_def Let_def)
  have p1: "persisted db ?st1" using assms(2) by (simp add: persisted_def)
  have p2: "persisted db ?st2"
  proof (cases "try_block ?r observation_id ?st1")
    case (Inl e)
    with p1 show ?thesis by (simp add: persisted_def queue_put_def log_info_def)
  next
    case (Inr s)
    from try_block_persists [OF Inr] p1 have "persisted db s"
      by (auto simp: persisted_def committed_def)
    with Inr show ?thesis by simp
  qed
  from assms(1) body have "st' = ?st2\<lparr>unfinished := unfinished ?st2 - 1\<rparr>"
    by (simp add: task_done_def split: if_splits)
  with p2 show ?thesis by (simp add: persisted_def)
qed

lemma worker_turns_persists:
  "persisted db st \<Longrightarrow> persisted db (worker_turns n session st)"
proof (induction n arbitrary: st)
  case 0
  then show ?case by simp
next
  case (Suc n)
  show ?case
  proof (cases "queue st")
    case Nil
    with Suc.prems show ?thesis by (simp add: queue_get_def)
  next
    case (Cons observation_id q)
    let ?st1 = "st\<lparr>queue := q\<rparr>"
    have p1: "persisted db ?st1" using Suc.prems by (simp add: persisted_def)
    show ?thesis
    proof (cases "loop_body session observation_id ?st1")
      case (Inl e)
      with Cons p1 show ?thesis by (simp add: queue_get_def)
    next
      case (Inr st2)
      then have "persisted db st2" using p1 by (rule loop_body_persists)
      then have "persisted db (worker_turns n session st2)" by (rule Suc.IH)
      with Cons Inr show ?thesis by (simp add: queue_get_def)
    qed
  qed
qed

lemma fold_queue_put_frame:
  "printed (fold queue_put ids st) = printed st \<and>
   conn_table (fold queue_put ids st) = conn_table st \<and>
   database (fold queue_put ids st) = database st"
  by (induction ids arbitrary: st) (simp_all add: queue_put_def)

lemma init_scraper_persisted: "persisted db (init_scraper ids db)"
  by (simp add: persisted_def init_scraper_def fold_queue_put_frame committed_def)

text \<open>
  C8. The run never yields a list of pairs: it is its body awaiting \<open>scrape_annotations\<close>
  (first conjunct), and whatever value an awaited worker hands back, the body ends
  without a \<open>return\<close> and its value is \<open>None\<close> (second). \<open>main\<close> is its body over that
  run (third) and hands the run's value to \<open>executemany\<close>: with the \<open>None\<close> of a run that
  came back this raises \<open>TypeError\<close> and writes nothing (fourth), and only a list of
  (annotations, id) pairs would be written as a batch (fifth). On the code neither the run
  nor \<open>main\<close> returns (sixth, seventh), so the batch write is never reached. The per-item
  commit is the only path to the database file: after any number of turns of the worker
  the file holds the initial table with exactly the updates the worker executed and
  committed item by item, in order, and the connection has nothing uncommitted (eighth,
  ninth); for one item labelled \<open>Alive\<close> the file holds that label for row 5 and leaves
  row 6 alone (tenth).
\<close>

theorem run_value_is_never_a_list:
  "scrape_annotations_from_ids session ids limit proxy db =
     scrape_annotations_from_ids_awaiting scrape_annotations session ids limit proxy db
   \<and> scrape_annotations_from_ids_awaiting (\<lambda>session st. Some (Inr v, st'))
       session ids limit proxy db = Some (Inr PyNone, st')
   \<and> main session limit proxy db =
       main_running scrape_annotations_from_ids session limit proxy db
   \<and> main_running (scrape_annotations_from_ids_awaiting (\<lambda>session st. Some (Inr v, st')))
       session limit proxy db = Some (Inl TypeError)
   \<and> main_running (\<lambda>session ids limit proxy db. Some (Inr (PyPairs ps), st'))
       session limit proxy db =
       Some (Inr (fold (\<lambda>(a, i). sql_update_annotations a i) ps (database st')))
   \<and> scrape_annotations_from_ids session ids limit proxy db = None
   \<and> main session limit proxy db = None
   \<and> database (worker_turns n session (init_scraper ids db)) =
       committed (printed (worker_turns n session (init_scraper ids db))) db
   \<and> conn_table (worker_turns n session (init_scraper ids db)) =
       database (worker_turns n session (init_scraper ids db))
   \<and> database (worker_turns 2
         (\<lambda>n i. Response 200 (Inr (JObj
            [(''total_results'', JNum 1),
             (''results'', JArr [JObj
                [(''annotations'', JArr
                    [JObj [(''controlled_value'', JObj [(''label'', JStr ''Alive'')])]])]])])))
         (init_scraper [5]
            [\<lparr>id_col = 5, taxon_id_col = 9, image_url_col = None, annotations_col = None\<rparr>,
             \<lparr>id_col = 6, taxon_id_col = 9, image_url_col = None, annotations_col = None\<rparr>]))
     = [\<lparr>id_col = 5, taxon_id_col = 9, image_url_col = None, annotations_col = Some ''Alive''\<rparr>,
        \<lparr>id_col = 6, taxon_id_col = 9, image_url_col = None, annotations_col = None\<rparr>]"
proof (intro conjI)
  show "scrape_annotations_from_ids session ids limit proxy db =
     scrape_annotations_from_ids_awaiting scrape_annotations session ids limit proxy db"
    by (simp only: scrape_annotations_from_ids_def scrape_annotations_from_ids_awaiting_def)
  show "scrape_annotations_from_ids_awaiting (\<lambda>session st. Some (Inr v, st'))
       session ids limit proxy db = Some (Inr PyNone, st')"
    by (simp add: scrape_annotations_from_ids_awaiting_def)
  show "main session limit proxy db =
       main_running scrape_annotations_from_ids session limit proxy db"
    by (simp only: main_def main_running_def)
  show "main_running (scrape_annotations_from_ids_awaiting (\<lambda>session st. Some (Inr v, st')))
       session limit proxy db = Some (Inl TypeError)"
    by (simp add: main_running_def scrape_annotations_from_ids_awaiting_def executemany_def)
  show "main_running (\<lambda>session ids limit proxy db. Some (Inr (PyPairs ps), st'))
       session limit proxy db =
       Some (Inr (fold (\<lambda>(a, i). sql_update_annotations a i) ps (database st')))"
    by (simp add: main_running_def executemany_def)
  show none: "scrape_annotations_from_ids session ids limit proxy db = None"
    by (rule run_never_returns)
  show "main session limit proxy db = None"
    by (simp add: main_def run_never_returns)
  have "persisted db (worker_turns n session (init_scraper ids db))"
    using init_scraper_persisted by (rule worker_turns_persists)
  then show "database (worker_turns n session (init_scraper ids db)) =
       committed (printed (worker_turns n session (init_scraper ids db))) db"
    and "conn_table (worker_turns n session (init_scraper ids db)) =
       database (worker_turns n session (init_scraper ids db))"
    by (simp_all add: persisted_def)
  show "database (worker_turns 2
         (\<lambda>n i. Response 200 (Inr (JObj
            [(''total_results'', JNum 1),
             (''results'', JArr [JObj
                [(''annotations'', JArr
                    [JObj [(''controlled_value'', JObj [(''label'', JStr ''Alive'')])]])]])])))
         (init_scraper [5]
            [\<lparr>id_col = 5, taxon_id_col = 9, image_url_col = None, annotations_col = None\<rparr>,
             \<lparr>id_col = 6, taxon_id_col = 9, image_url_col = None, annotations_col = None\<rparr>]))
     = [\<lparr>id_col = 5, taxon_id_col = 9, image_url_col = None, annotations_col = Some ''Alive''\<rparr>,
        \<lparr>id_col = 6, taxon_id_col = 9, image_url_col = None, annotations_col = None\<rparr>]"
    by code_simp
qed

section \<open>The image pool\<close>

lemma reach_trans:
  assumes "download_images_reach image_dir session image_size s0 s"
    and "download_images_reach image_dir session image_size s t"
  shows "download_images_reach image_dir session image_size s0 t"
  using assms(2,1)
proof (induction rule: download_images_reach.induct)
  case reach_init
  then show ?case .
next
  case (reach_step s' t)
  then show ?case by (blast intro: download_images_reach.reach_step)
qed

lemma spawn_one:
  assumes "0 < n"
  shows "download_images_reach image_dir session image_size
           \<lparr>main_task = Spawning (u # us), sem = n, tasks = ts, fetches = k, env = w\<rparr>
           \<lparr>main_task = Spawning us, sem = n, tasks = ts @ [(u, Created)], fetches = k, env = w\<rparr>"
proof -
  let ?a = "\<lparr>main_task = Spawning (u # us), sem = n, tasks = ts, fetches = k, env = w\<rparr>"
  let ?b = "\<lparr>main_task = Holding u us, sem = n - 1, tasks = ts, fetches = k, env = w\<rparr>"
  let ?c = "\<lparr>main_task = Spawning us, sem = n, tasks = ts @ [(u, Created)], fetches = k, env = w\<rparr>"
  have "download_images_step image_dir session image_size ?a (?a\<lparr>main_task := Holding u us, sem := sem ?a - 1\<rparr>)"
    using assms by (intro download_images_step.sem_acquire) simp_all
  then have ab: "download_images_step image_dir session image_size ?a ?b" by simp
  have "download_images_step image_dir session image_size ?b
          (?b\<lparr>main_task := Spawning us, sem := sem ?b + 1, tasks := tasks ?b @ [(u, Created)]\<rparr>)"
    by (intro download_images_step.create_task_release) simp
  then have bc: "download_images_step image_dir session image_size ?b ?c" using assms by simp
  from download_images_reach.reach_init [of image_dir session image_size ?a] ab
  have "download_images_reach image_dir session image_size ?a ?b"
    by (rule download_images_reach.reach_step)
  then show ?thesis using bc by (rule download_images_reach.reach_step)
qed

lemma spawn_all:
  assumes "0 < n"
  shows "download_images_reach image_dir session image_size
           \<lparr>main_task = Spawning us, sem = n, tasks = ts, fetches = k, env = w\<rparr>
           \<lparr>main_task = Spawning [], sem = n, tasks = ts @ map (\<lambda>u. (u, Created)) us,
             fetches = k, env = w\<rparr>"
proof (induction us arbitrary: ts)
  case Nil
  show ?case by (simp add: download_images_reach.reach_init)
next
  case (Cons u us)
  have "download_images_reach image_dir session image_size
           \<lparr>main_task = Spawning (u # us), sem = n, tasks = ts, fetches = k, env = w\<rparr>
           \<lparr>main_task = Spawning us, sem = n, tasks = ts @ [(u, Created)], fetches = k, env = w\<rparr>"
    using assms by (rule spawn_one)
  moreover have "download_images_reach image_dir session image_size
           \<lparr>main_task = Spawning us, sem = n, tasks = ts @ [(u, Created)], fetches = k, env = w\<rparr>
           \<lparr>main_task = Spawning [], sem = n, tasks = (ts @ [(u, Created)]) @ map (\<lambda>u. (u, Created)) us,
             fetches = k, env = w\<rparr>"
    by (rule Cons.IH)
  ultimately show ?case using reach_trans by fastforce
qed

lemma start_all:
  "download_images_reach image_dir session image_size
     \<lparr>main_task = Gathering, sem = n, tasks = map (\<lambda>u. (u, InFlight)) pre @ map (\<lambda>u. (u, Created)) us,
       fetches = k, env = w\<rparr>
     \<lparr>main_task = Gathering, sem = n, tasks = map (\<lambda>u. (u, InFlight)) (pre @ us),
       fetches = k + length us, env = w\<rparr>"
proof (induction us arbitrary: pre k)
  case Nil
  show ?case by (simp add: download_images_reach.reach_init)
next
  case (Cons u us)
  let ?ts = "map (\<lambda>u. (u, InFlight)) pre @ map (\<lambda>u. (u, Created)) (u # us)"
  let ?a = "\<lparr>main_task = Gathering, sem = n, tasks = ?ts, fetches = k, env = w\<rparr>"
  let ?b = "\<lparr>main_task = Gathering, sem = n,
              tasks = map (\<lambda>u. (u, InFlight)) (pre @ [u]) @ map (\<lambda>u. (u, Created)) us,
              fetches = Suc k, env = w\<rparr>"
  have nth: "tasks ?a ! length pre = (u, Created)"
    by (simp add: nth_append)
  have "download_images_step image_dir session image_size ?a
          (?a\<lparr>tasks := (tasks ?a)[length pre := (u, InFlight)], fetches := Suc (fetches ?a)\<rparr>)"
    using nth by (intro download_images_step.task_start) simp_all
  moreover have "?ts[length pre := (u, InFlight)] =
      map (\<lambda>u. (u, InFlight)) (pre @ [u]) @ map (\<lambda>u. (u, Created)) us"
    by (simp add: list_update_append)
  ultimately have "download_images_step image_dir session image_size ?a ?b" by simp
  with download_images_reach.reach_init [of image_dir session image_size ?a]
  have ab: "download_images_reach image_dir session image_size ?a ?b"
    by (rule download_images_reach.reach_step)
  have "download_images_reach image_dir session image_size ?b
     \<lparr>main_task = Gathering, sem = n, tasks = map (\<lambda>u. (u, InFlight)) ((pre @ [u]) @ us),
       fetches = Suc k + length us, env = w\<rparr>"
    by (rule Cons.IH)
  with ab show ?case using reach_trans by fastforce
qed

lemma reach_all_in_flight:
  assumes "0 < semaphore"
  shows "download_images_reach image_dir session image_size (init_pool urls semaphore w)
           \<lparr>main_task = Gathering, sem = semaphore, tasks = map (\<lambda>u. (u, InFlight)) urls,
             fetches = length urls, env = w\<rparr>"
proof -
  let ?g = "\<lparr>main_task = Gathering, sem = semaphore, tasks = map (\<lambda>u. (u, Created)) urls,
             fetches = 0, env = w\<rparr>"
  let ?e = "\<lparr>main_task = Spawning [], sem = semaphore, tasks = map (\<lambda>u. (u, Created)) urls,
             fetches = 0, env = w\<rparr>"
  let ?f = "\<lparr>main_task = Gathering, sem = semaphore, tasks = map (\<lambda>u. (u, InFlight)) urls,
             fetches = length urls, env = w\<rparr>"
  have 1: "download_images_reach image_dir session image_size (init_pool urls semaphore w) ?e"
    using spawn_all [OF assms, of image_dir session image_size urls "[]" 0 w]
    by (simp add: init_pool_def)
  have "download_images_step image_dir session image_size ?e (?e\<lparr>main_task := Gathering\<rparr>)"
    by (intro download_images_step.loop_exit) simp
  then have 2: "download_images_step image_dir session image_size ?e ?g" by simp
  have 3: "download_images_reach image_dir session image_size ?g ?f"
    using start_all [of image_dir session image_size semaphore "[]" urls 0 w] by simp
  from 1 2 have "download_images_reach image_dir session image_size (init_pool urls semaphore w) ?g"
    by (rule download_images_reach.reach_step)
  then show ?thesis using 3 by (rule reach_trans)
qed

text \<open>
  C3 fails on the code. The semaphore is held only while \<open>create_task\<close> runs, not while
  the task runs, so it never makes the main coroutine wait: for every list of work items
  and every positive bound, the run reaches a state in which the semaphore is free again
  and every item's request is in flight at once.
\<close>

theorem semaphore_does_not_bound_in_flight:
  assumes "0 < semaphore"
  shows "download_images_reach image_dir session image_size (init_pool urls semaphore w)
           \<lparr>main_task = Gathering, sem = semaphore, tasks = map (\<lambda>u. (u, InFlight)) urls,
             fetches = length urls, env = w\<rparr>
         \<and> in_flight \<lparr>main_task = Gathering, sem = semaphore, tasks = map (\<lambda>u. (u, InFlight)) urls,
             fetches = length urls, env = w\<rparr> = length urls"
proof
  show "download_images_reach image_dir session image_size (init_pool urls semaphore w)
           \<lparr>main_task = Gathering, sem = semaphore, tasks = map (\<lambda>u. (u, InFlight)) urls,
             fetches = length urls, env = w\<rparr>"
    using assms by (rule reach_all_in_flight)
  show "in_flight \<lparr>main_task = Gathering, sem = semaphore, tasks = map (\<lambda>u. (u, InFlight)) urls,
             fetches = length urls, env = w\<rparr> = length urls"
    by (simp add: in_flight_def comp_def)
qed

theorem semaphore_does_not_bound_in_flight_witness:
  "download_images_reach ''images'' (\<lambda>url. Response 200 (Inr ''img'')) ''medium''
     (init_pool [(1, 9, ''http://h/1/medium.jpg''), (2, 9, ''http://h/2/medium.jpg'')] 1
        \<lparr>files = Map.empty, logged = []\<rparr>)
     \<lparr>main_task = Gathering, sem = 1,
      tasks = [((1, 9, ''http://h/1/medium.jpg''), InFlight),
               ((2, 9, ''http://h/2/medium.jpg''), InFlight)],
      fetches = 2, env = \<lparr>files = Map.empty, logged = []\<rparr>\<rparr>
   \<and> in_flight \<lparr>main_task = Gathering, sem = 1,
      tasks = [((1, 9, ''http://h/1/medium.jpg''), InFlight),
               ((2, 9, ''http://h/2/medium.jpg''), InFlight)],
      fetches = 2, env = \<lparr>files = Map.empty, logged = []\<rparr>\<rparr> = 2"
proof -
  have h: "0 < (1::nat)" by simp
  show ?thesis
    using semaphore_does_not_bound_in_flight
      [OF h, of "''images''" "\<lambda>url. Response 200 (Inr ''img'')" "''medium''"
         "[(1, 9, ''http://h/1/medium.jpg''), (2, 9, ''http://h/2/medium.jpg'')]"
         "\<lparr>files = Map.empty, logged = []\<rparr>"]
    by (simp add: numeral_2_eq_2)
qed

lemma step_keeps_items:
  assumes "download_images_step image_dir session image_size s t"
  shows "map fst (tasks t) @ remaining (main_task t) = map fst (tasks s) @ remaining (main_task s)"
  using assms
proof (cases rule: download_images_step.cases)
  case (sem_acquire u us)
  then show ?thesis by (simp add: remaining_def)
next
  case (create_task_release u us)
  then show ?thesis by (simp add: remaining_def)
next
  case loop_exit
  then show ?thesis by (simp add: remaining_def)
next
  case (task_start i u)
  then have "map fst ((tasks s)[i := (u, InFlight)]) = map fst (tasks s)"
    by (simp add: map_update list_update_same_conv)
  with task_start show ?thesis by simp
next
  case (task_finish i image_id taxon_id image_url)
  then have "map fst ((tasks s)[i := ((image_id, taxon_id, image_url), Finished)]) = map fst (tasks s)"
    by (simp add: map_update list_update_same_conv)
  with task_finish show ?thesis by simp
next
  case gather_done
  then show ?thesis by (simp add: remaining_def)
qed

lemma filter_update_length:
  assumes "i < length xs" "\<not> P (xs ! i)" "P y"
  shows "length (filter P (xs[i := y])) = Suc (length (filter P xs))"
  using assms
proof (induction xs arbitrary: i)
  case Nil
  then show ?case by simp
next
  case (Cons x xs)
  show ?case
  proof (cases i)
    case 0
    with Cons.prems show ?thesis by simp
  next
    case (Suc j)
    with Cons.prems have "length (filter P (xs[j := y])) = Suc (length (filter P xs))"
      by (intro Cons.IH) simp_all
    with Suc show ?thesis by simp
  qed
qed

lemma filter_update_same:
  assumes "i < length xs" "P (xs ! i)" "P y"
  shows "length (filter P (xs[i := y])) = length (filter P xs)"
  using assms
proof (induction xs arbitrary: i)
  case Nil
  then show ?case by simp
next
  case (Cons x xs)
  show ?case
  proof (cases i)
    case 0
    with Cons.prems show ?thesis by simp
  next
    case (Suc j)
    with Cons.prems have "length (filter P (xs[j := y])) = length (filter P xs)"
      by (intro Cons.IH) simp_all
    with Suc show ?thesis by simp
  qed
qed

lemma step_keeps_fetches:
  assumes "download_images_step image_dir session image_size s t"
    and "fetches s = started s"
  shows "fetches t = started t"
  using assms(1)
proof (cases rule: download_images_step.cases)
  case (sem_acquire u us)
  with assms(2) show ?thesis by (simp add: started_def)
next
  case (create_task_release u us)
  with assms(2) show ?thesis by (simp add: started_def)
next
  case loop_exit
  with assms(2) show ?thesis by (simp add: started_def)
next
  case (task_start i u)
  then have "length (filter (\<lambda>t. snd t \<noteq> Created) ((tasks s)[i := (u, InFlight)])) =
      Suc (length (filter (\<lambda>t. snd t \<noteq> Created) (tasks s)))"
    by (intro filter_update_length) simp_all
  with task_start assms(2) show ?thesis by (simp add: started_def)
next
  case (task_finish i image_id taxon_id image_url)
  then have "length (filter (\<lambda>t. snd t \<noteq> Created)
        ((tasks s)[i := ((image_id, taxon_id, image_url), Finished)])) =
      length (filter (\<lambda>t. snd t \<noteq> Created) (tasks s))"
    by (intro filter_update_same) simp_all
  with task_finish assms(2) show ?thesis by (simp add: started_def)
next
  case gather_done
  with assms(2) show ?thesis by (simp add: started_def)
qed

lemma reach_one_task_per_item:
  assumes "download_images_reach image_dir session image_size (init_pool urls semaphore w) s"
  shows "map fst (tasks s) @ remaining (main_task s) = urls \<and> fetches s = started s"
  using assms
proof (induction rule: download_images_reach.induct)
  case reach_init
  show ?case by (simp add: init_pool_def remaining_def started_def)
next
  case (reach_step s t)
  from reach_step.hyps(2) reach_step.IH show ?case
    using step_keeps_items step_keeps_fetches by metis
qed

lemma step_keeps_finished:
  assumes "download_images_step image_dir session image_size s t"
    and "main_task t = Returned"
  shows "list_all (\<lambda>t. snd t = Finished) (tasks t)"
  using assms
proof (cases rule: download_images_step.cases)
  case gather_done
  then show ?thesis by simp
qed simp_all

lemma reach_returned_finished:
  assumes "download_images_reach image_dir session image_size (init_pool urls semaphore w) s"
    and "main_task s = Returned"
  shows "list_all (\<lambda>t. snd t = Finished) (tasks s)"
  using assms
proof (induction rule: download_images_reach.induct)
  case reach_init
  then show ?case by (simp add: init_pool_def)
next
  case (reach_step s t)
  from reach_step.hyps(2) reach_step.prems show ?case by (rule step_keeps_finished)
qed

lemma all_finished_started:
  "list_all (\<lambda>t. snd t = Finished) ts \<Longrightarrow>
   length (filter (\<lambda>t. snd t \<noteq> Created) ts) = length ts"
  by (induction ts) simp_all

lemma reach_returned_fetches:
  assumes "download_images_reach image_dir session image_size (init_pool urls semaphore w) s"
    and "main_task s = Returned"
  shows "fetches s = length urls"
proof -
  from assms(1) have inv: "map fst (tasks s) @ remaining (main_task s) = urls \<and> fetches s = started s"
    by (rule reach_one_task_per_item)
  from assms have "list_all (\<lambda>t. snd t = Finished) (tasks s)" by (rule reach_returned_finished)
  then have "started s = length (tasks s)" unfolding started_def by (rule all_finished_started)
  moreover from inv assms(2) have "length (tasks s) = length urls"
    by (auto simp: remaining_def dest: arg_cong [where f = length])
  ultimately show ?thesis using inv by simp
qed

lemma download_image_failed_status:
  assumes "session image_url = Response status body" "status \<noteq> 200"
  shows "download_image image_dir session image_id taxon_id image_url w =
           logging_info (DownloadFailedStatus image_id taxon_id status) w"
  using assms by (simp add: download_image_def)

lemma download_image_raised:
  assumes "session image_url = Raised e"
  shows "download_image image_dir session image_id taxon_id image_url w =
           logging_info (DownloadFailedExn image_id taxon_id e) w"
  using assms by (simp add: download_image_def)

lemma download_image_read_failed:
  assumes "session image_url = Response 200 (Inl e)"
  shows "download_image image_dir session image_id taxon_id image_url w =
           w\<lparr>files := (files w)(path_join image_dir
                  (str_int image_id @ snd (splitext (basename image_url))) \<mapsto> []),
               logged := logged w @ [(INFO, DownloadFailedExn image_id taxon_id e)]\<rparr>"
  using assms by (simp add: download_image_def logging_info_def Let_def)

lemma download_image_keeps_files:
  assumes "fails_before_write (session image_url)"
  shows "files (download_image image_dir session image_id taxon_id image_url w) = files w"
proof (cases "session image_url")
  case (Raised e)
  then show ?thesis by (simp add: download_image_raised logging_info_def)
next
  case (Response status body)
  with assms have "status \<noteq> 200" by (simp add: fails_before_write_def)
  with Response show ?thesis by (simp add: download_image_failed_status logging_info_def)
qed

lemma step_keeps_files:
  assumes "download_images_step image_dir session image_size s t"
    and "\<forall>u \<in> set (map fst (tasks s)). fails_before_write (session (snd (snd u)))"
  shows "files (env t) = files (env s)"
  using assms(1)
proof (cases rule: download_images_step.cases)
  case (task_finish i image_id taxon_id image_url)
  then have "(image_id, taxon_id, image_url) \<in> set (map fst (tasks s))"
    by (metis fst_conv nth_map length_map nth_mem)
  with assms(2) have "fails_before_write (session image_url)" by fastforce
  then have "files (download_image image_dir session image_id taxon_id image_url (env s)) = files (env s)"
    by (rule download_image_keeps_files)
  with task_finish show ?thesis by simp
next
  case gather_done
  then show ?thesis by (simp add: logging_info_def)
qed simp_all

lemma reach_keeps_files:
  assumes "download_images_reach image_dir session image_size (init_pool urls semaphore w0) s"
    and "\<forall>u \<in> set urls. fails_before_write (session (snd (snd u)))"
  shows "files (env s) = files w0"
  using assms(1)
proof (induction rule: download_images_reach.induct)
  case reach_init
  show ?case by (simp add: init_pool_def)
next
  case (reach_step s t)
  from reach_step.hyps(1) have "map fst (tasks s) @ remaining (main_task s) = urls"
    using reach_one_task_per_item by blast
  then have "set (map fst (tasks s)) \<subseteq> set urls" by (metis set_append Un_upper1)
  with assms(2) have "\<forall>u \<in> set (map fst (tasks s)). fails_before_write (session (snd (snd u)))"
    by blast
  with reach_step.hyps(2) have "files (env t) = files (env s)" by (rule step_keeps_files)
  with reach_step.IH show ?case by simp
qed

lemma failing_run_reaches_end:
  "download_images_reach ''images'' (\<lambda>url. Response 404 (Inr [])) ''medium''
     (init_pool [(1, 9, ''http://h/1/medium.jpg'')] 1 \<lparr>files = Map.empty, logged = []\<rparr>)
     \<lparr>main_task = Returned, sem = 1, tasks = [((1, 9, ''http://h/1/medium.jpg''), Finished)],
      fetches = 1,
      env = \<lparr>files = Map.empty,
             logged = [(INFO, DownloadFailedStatus 1 9 404), (INFO, Downloaded ''medium'')]\<rparr>\<rparr>"
proof -
  let ?session = "\<lambda>url :: string. Response 404 (Inr []) :: bytes http_result"
  let ?u = "(1 :: int, 9 :: int, ''http://h/1/medium.jpg'')"
  let ?w = "\<lparr>files = Map.empty, logged = []\<rparr>"
  let ?a = "\<lparr>main_task = Gathering, sem = 1, tasks = [(?u, InFlight)], fetches = 1, env = ?w\<rparr>"
  let ?w1 = "\<lparr>files = Map.empty, logged = [(INFO, DownloadFailedStatus 1 9 404)]\<rparr>"
  let ?b = "\<lparr>main_task = Gathering, sem = 1, tasks = [(?u, Finished)], fetches = 1, env = ?w1\<rparr>"
  let ?w2 = "\<lparr>files = Map.empty,
             logged = [(INFO, DownloadFailedStatus 1 9 404), (INFO, Downloaded ''medium'')]\<rparr>"
  let ?c = "\<lparr>main_task = Returned, sem = 1, tasks = [(?u, Finished)], fetches = 1, env = ?w2\<rparr>"
  have "download_images_reach ''images'' ?session ''medium'' (init_pool [?u] 1 ?w)
          \<lparr>main_task = Gathering, sem = 1, tasks = map (\<lambda>u. (u, InFlight)) [?u],
            fetches = length [?u], env = ?w\<rparr>"
    by (rule reach_all_in_flight) simp
  then have ra: "download_images_reach ''images'' ?session ''medium'' (init_pool [?u] 1 ?w) ?a"
    by simp
  have dl: "download_image ''images'' ?session 1 9 ''http://h/1/medium.jpg'' ?w = ?w1"
    by (simp add: download_image_failed_status [where status = 404 and body = "Inr []"]
        logging_info_def)
  have "download_images_step ''images'' ?session ''medium'' ?a
          (?a\<lparr>tasks := (tasks ?a)[0 := (?u, Finished)],
              env := download_image ''images'' ?session 1 9 ''http://h/1/medium.jpg'' (env ?a)\<rparr>)"
    by (intro download_images_step.task_finish) simp_all
  then have ab: "download_images_step ''images'' ?session ''medium'' ?a ?b"
    using dl by simp
  have "download_images_step ''images'' ?session ''medium'' ?b
          (?b\<lparr>main_task := Returned, env := logging_info (Downloaded ''medium'') (env ?b)\<rparr>)"
    by (intro download_images_step.gather_done) simp_all
  then have bc: "download_images_step ''images'' ?session ''medium'' ?b ?c"
    by (simp add: logging_info_def)
  from ra ab have "download_images_reach ''images'' ?session ''medium'' (init_pool [?u] 1 ?w) ?b"
    by (rule download_images_reach.reach_step)
  then show ?thesis using bc by (rule download_images_reach.reach_step)
qed

lemma returned_is_final:
  "main_task s = Returned \<Longrightarrow> \<not> download_images_step image_dir session image_size s t"
  by (auto elim: download_images_step.cases)

text \<open>
  C1, as stated, fails: \<open>download_image\<close> has no queue to put a failed item back on. With
  one work item whose GET answers 404, the run of \<open>download_images\<close> comes to its end
  (\<open>Returned\<close>, from where no step is possible) after a single request, with no file
  written and the failure logged: the item is neither written nor pending.
\<close>

theorem failed_download_dropped_counterexample:
  "download_images_reach ''images'' (\<lambda>url. Response 404 (Inr [])) ''medium''
     (init_pool [(1, 9, ''http://h/1/medium.jpg'')] 1 \<lparr>files = Map.empty, logged = []\<rparr>)
     \<lparr>main_task = Returned, sem = 1, tasks = [((1, 9, ''http://h/1/medium.jpg''), Finished)],
      fetches = 1,
      env = \<lparr>files = Map.empty,
             logged = [(INFO, DownloadFailedStatus 1 9 404), (INFO, Downloaded ''medium'')]\<rparr>\<rparr>
   \<and> (\<forall>t. \<not> download_images_step ''images'' (\<lambda>url. Response 404 (Inr [])) ''medium''
     \<lparr>main_task = Returned, sem = 1, tasks = [((1, 9, ''http://h/1/medium.jpg''), Finished)],
      fetches = 1,
      env = \<lparr>files = Map.empty,
             logged = [(INFO, DownloadFailedStatus 1 9 404), (INFO, Downloaded ''medium'')]\<rparr>\<rparr> t)"
proof (intro conjI allI)
  show "download_images_reach ''images'' (\<lambda>url. Response 404 (Inr [])) ''medium''
     (init_pool [(1, 9, ''http://h/1/medium.jpg'')] 1 \<lparr>files = Map.empty, logged = []\<rparr>)
     \<lparr>main_task = Returned, sem = 1, tasks = [((1, 9, ''http://h/1/medium.jpg''), Finished)],
      fetches = 1,
      env = \<lparr>files = Map.empty,
             logged = [(INFO, DownloadFailedStatus 1 9 404), (INFO, Downloaded ''medium'')]\<rparr>\<rparr>"
    by (rule failing_run_reaches_end)
next
  fix t
  show "\<not> download_images_step ''images'' (\<lambda>url. Response 404 (Inr [])) ''medium''
     \<lparr>main_task = Returned, sem = 1, tasks = [((1, 9, ''http://h/1/medium.jpg''), Finished)],
      fetches = 1,
      env = \<lparr>files = Map.empty,
             logged = [(INFO, DownloadFailedStatus 1 9 404), (INFO, Downloaded ''medium'')]\<rparr>\<rparr> t"
    by (rule returned_is_final) simp
qed

text \<open>
  C1, amended. A failed attempt is not put back anywhere: in every state a run of
  \<open>download_images\<close> can reach, each work item has exactly one task or is still waiting
  for its task to be created, and the number of requests issued is the number of started
  tasks, hence at most the number of items, and equal to it once the run has returned:
  every item is fetched once and no item twice. Every failure the \<open>except\<close> clause or the
  status test catches appends one failure record at level \<open>INFO\<close>: the request raises,
  the status is not 200, or reading the body of a 200 response raises. In the first two
  cases nothing else changes, so a run in which every item fails in one of these two ways
  leaves the files, in every state it reaches and when it returns, as they were at the
  start. In the third case the target file has been opened for writing before the body is
  read and is left empty.
\<close>

theorem failed_download_not_retried:
  assumes "download_images_reach image_dir session image_size (init_pool urls semaphore w0) s"
  shows "map fst (tasks s) @ remaining (main_task s) = urls
       \<and> fetches s = started s \<and> fetches s \<le> length urls
       \<and> (main_task s = Returned \<longrightarrow> fetches s = length urls)
       \<and> ((\<forall>u \<in> set urls. fails_before_write (session (snd (snd u)))) \<longrightarrow>
            files (env s) = files w0)
       \<and> (\<forall>e. session image_url = Raised e \<longrightarrow>
            download_image image_dir session image_id taxon_id image_url w =
              w\<lparr>logged := logged w @ [(INFO, DownloadFailedExn image_id taxon_id e)]\<rparr>)
       \<and> (\<forall>status body. session image_url = Response status body \<and> status \<noteq> 200 \<longrightarrow>
            download_image image_dir session image_id taxon_id image_url w =
              w\<lparr>logged := logged w @ [(INFO, DownloadFailedStatus image_id taxon_id status)]\<rparr>)
       \<and> (\<forall>e. session image_url = Response 200 (Inl e) \<longrightarrow>
            download_image image_dir session image_id taxon_id image_url w =
              w\<lparr>files := (files w)(path_join image_dir
                     (str_int image_id @ snd (splitext (basename image_url))) \<mapsto> []),
                  logged := logged w @ [(INFO, DownloadFailedExn image_id taxon_id e)]\<rparr>)"
proof (intro conjI allI impI)
  from assms have inv: "map fst (tasks s) @ remaining (main_task s) = urls \<and> fetches s = started s"
    by (rule reach_one_task_per_item)
  then show "map fst (tasks s) @ remaining (main_task s) = urls" and f: "fetches s = started s"
    by simp_all
  have "started s \<le> length (tasks s)" by (simp add: started_def)
  also have "\<dots> = length (map fst (tasks s))" by simp
  also have "\<dots> \<le> length (map fst (tasks s) @ remaining (main_task s))" by simp
  also have "\<dots> = length urls" using inv by simp
  finally show "fetches s \<le> length urls" using f by simp
next
  assume "main_task s = Returned"
  with assms show "fetches s = length urls" by (rule reach_returned_fetches)
next
  assume "\<forall>u \<in> set urls. fails_before_write (session (snd (snd u)))"
  with assms show "files (env s) = files w0" by (rule reach_keeps_files)
next
  fix e assume "session image_url = Raised e"
  then show "download_image image_dir session image_id taxon_id image_url w =
              w\<lparr>logged := logged w @ [(INFO, DownloadFailedExn image_id taxon_id e)]\<rparr>"
    by (simp add: download_image_raised logging_info_def)
next
  fix status body assume "session image_url = Response status body \<and> status \<noteq> 200"
  then show "download_image image_dir session image_id taxon_id image_url w =
              w\<lparr>logged := logged w @ [(INFO, DownloadFailedStatus image_id taxon_id status)]\<rparr>"
    by (simp add: download_image_failed_status logging_info_def)
next
  fix e assume "session image_url = Response 200 (Inl e)"
  then show "download_image image_dir session image_id taxon_id image_url w =
              w\<lparr>files := (files w)(path_join image_dir
                     (str_int image_id @ snd (splitext (basename image_url))) \<mapsto> []),
                  logged := logged w @ [(INFO, DownloadFailedExn image_id taxon_id e)]\<rparr>"
    by (rule download_image_read_failed)
qed

theorem failed_download_not_retried_witness:
  "fetches \<lparr>main_task = Returned, sem = 1, tasks = [((1, 9, ''http://h/1/medium.jpg''), Finished)],
      fetches = 1,
      env = \<lparr>files = Map.empty,
             logged = [(INFO, DownloadFailedStatus 1 9 404), (INFO, Downloaded ''medium'')]\<rparr>\<rparr>
     = length [(1 :: int, 9 :: int, ''http://h/1/medium.jpg'')]
   \<and> files (env \<lparr>main_task = Returned, sem = 1,
      tasks = [((1, 9, ''http://h/1/medium.jpg''), Finished)], fetches = 1,
      env = \<lparr>files = Map.empty,
             logged = [(INFO, DownloadFailedStatus 1 9 404), (INFO, Downloaded ''medium'')]\<rparr>\<rparr>)
     = files \<lparr>files = Map.empty, logged = []\<rparr>
   \<and> download_image ''images'' (\<lambda>url. Response 404 (Inr [])) 1 9 ''http://h/1/medium.jpg''
       \<lparr>files = Map.empty, logged = []\<rparr>
     = \<lparr>files = Map.empty, logged = [(INFO, DownloadFailedStatus 1 9 404)]\<rparr>
   \<and> download_image ''images'' (\<lambda>url. Raised (ClientError ''refused'')) 1 9
       ''http://h/1/medium.jpg'' \<lparr>files = Map.empty, logged = []\<rparr>
     = \<lparr>files = Map.empty, logged = [(INFO, DownloadFailedExn 1 9 (ClientError ''refused''))]\<rparr>
   \<and> download_image ''images'' (\<lambda>url. Response 200 (Inl (ClientError ''reset''))) 1 9
       ''http://h/1/medium.jpg'' \<lparr>files = Map.empty, logged = []\<rparr>
     = \<lparr>files = [''images/1.jpg'' \<mapsto> []],
        logged = [(INFO, DownloadFailedExn 1 9 (ClientError ''reset''))]\<rparr>"
proof (intro conjI)
  let ?w = "\<lparr>files = Map.empty, logged = []\<rparr>"
  let ?u = "(1 :: int, 9 :: int, ''http://h/1/medium.jpg'')"
  let ?final = "\<lparr>main_task = Returned, sem = 1, tasks = [(?u, Finished)], fetches = 1,
      env = \<lparr>files = Map.empty,
             logged = [(INFO, DownloadFailedStatus 1 9 404), (INFO, Downloaded ''medium'')]\<rparr>\<rparr>"
  let ?s404 = "\<lambda>url :: string. Response 404 (Inr []) :: bytes http_result"
  let ?sraise = "\<lambda>url :: string. Raised (ClientError ''refused'') :: bytes http_result"
  let ?sread = "\<lambda>url :: string. Response 200 (Inl (ClientError ''reset'')) :: bytes http_result"
  note inst1 = failed_download_not_retried [OF failing_run_reaches_end,
      where image_url = "''http://h/1/medium.jpg''" and image_id = 1 and taxon_id = 9 and w = ?w]
  have ret: "main_task ?final = Returned" by simp
  from inst1 have "main_task ?final = Returned \<longrightarrow> fetches ?final = length [?u]" by blast
  with ret show "fetches ?final = length [?u]" by (rule rev_mp)
  have nw: "\<forall>u \<in> set [?u]. fails_before_write (?s404 (snd (snd u)))"
    by (simp add: fails_before_write_def)
  from inst1 have "(\<forall>u \<in> set [?u]. fails_before_write (?s404 (snd (snd u)))) \<longrightarrow>
      files (env ?final) = files ?w" by blast
  with nw show "files (env ?final) = files ?w" by (rule rev_mp)
  from inst1 have "\<forall>status body. ?s404 ''http://h/1/medium.jpg'' = Response status body \<and> status \<noteq> 200 \<longrightarrow>
            download_image ''images'' ?s404 1 9 ''http://h/1/medium.jpg'' ?w =
              ?w\<lparr>logged := logged ?w @ [(INFO, DownloadFailedStatus 1 9 status)]\<rparr>"
    by blast
  then have "download_image ''images'' ?s404 1 9 ''http://h/1/medium.jpg'' ?w =
              ?w\<lparr>logged := logged ?w @ [(INFO, DownloadFailedStatus 1 9 404)]\<rparr>"
    by simp
  then show "download_image ''images'' ?s404 1 9 ''http://h/1/medium.jpg'' ?w
     = \<lparr>files = Map.empty, logged = [(INFO, DownloadFailedStatus 1 9 404)]\<rparr>" by simp
  have start: "download_images_reach ''images'' sess ''medium'' (init_pool [?u] 1 ?w)
      (init_pool [?u] 1 ?w)" for sess
    by (rule download_images_reach.reach_init)
  note inst2 = failed_download_not_retried [OF start [of ?sraise],
      where image_url = "''http://h/1/medium.jpg''" and image_id = 1 and taxon_id = 9 and w = ?w]
  from inst2 have "\<forall>e. ?sraise ''http://h/1/medium.jpg'' = Raised e \<longrightarrow>
            download_image ''images'' ?sraise 1 9 ''http://h/1/medium.jpg'' ?w =
              ?w\<lparr>logged := logged ?w @ [(INFO, DownloadFailedExn 1 9 e)]\<rparr>"
    by blast
  then have "download_image ''images'' ?sraise 1 9 ''http://h/1/medium.jpg'' ?w =
              ?w\<lparr>logged := logged ?w @ [(INFO, DownloadFailedExn 1 9 (ClientError ''refused''))]\<rparr>"
    by simp
  then show "download_image ''images'' ?sraise 1 9 ''http://h/1/medium.jpg'' ?w
     = \<lparr>files = Map.empty, logged = [(INFO, DownloadFailedExn 1 9 (ClientError ''refused''))]\<rparr>"
    by simp
  note inst3 = failed_download_not_retried [OF start [of ?sread],
      where image_url = "''http://h/1/medium.jpg''" and image_id = 1 and taxon_id = 9 and w = ?w]
  have p: "path_join ''images'' (str_int 1 @ snd (splitext (basename ''http://h/1/medium.jpg'')))
      = ''images/1.jpg''" by code_simp
  from inst3 have "\<forall>e. ?sread ''http://h/1/medium.jpg'' = Response 200 (Inl e) \<longrightarrow>
            download_image ''images'' ?sread 1 9 ''http://h/1/medium.jpg'' ?w =
              ?w\<lparr>files := (files ?w)(path_join ''images''
                     (str_int 1 @ snd (splitext (basename ''http://h/1/medium.jpg''))) \<mapsto> []),
                  logged := logged ?w @ [(INFO, DownloadFailedExn 1 9 e)]\<rparr>"
    by blast
  then have "download_image ''images'' ?sread 1 9 ''http://h/1/medium.jpg'' ?w =
              ?w\<lparr>files := (files ?w)(path_join ''images''
                     (str_int 1 @ snd (splitext (basename ''http://h/1/medium.jpg''))) \<mapsto> []),
                  logged := logged ?w @ [(INFO, DownloadFailedExn 1 9 (ClientError ''reset''))]\<rparr>"
    by simp
  then show "download_image ''images'' ?sread 1 9 ''http://h/1/medium.jpg'' ?w
     = \<lparr>files = [''images/1.jpg'' \<mapsto> []],
        logged = [(INFO, DownloadFailedExn 1 9 (ClientError ''reset''))]\<rparr>"
    by (simp only: p) simp
qed

section \<open>Loading the exports\<close>

text \<open>
  C9: whenever \<open>load_observations\<close> completes, every row of the table it leaves has
  \<open>annotations = NULL\<close>, and the table (and the log record) is the same whatever the
  table held before, or whether it existed: the rows that were there, with the annotations
  earlier runs committed, are gone.
\<close>

theorem load_observations_replaces:
  assumes "load_observations export_dir table lg = Inr (table', lg')"
  shows "(\<forall>r \<in> set table'. annotations_col r = None)
       \<and> (\<forall>prior. load_observations export_dir prior lg = Inr (table', lg'))"
proof -
  from assms obtain dataframes where rd: "read_exports export_dir [] = Inr dataframes"
    by (cases "read_exports export_dir []") (simp_all add: load_observations_def)
  from assms rd obtain df0 where cc: "pd_concat dataframes = Inr df0"
    by (cases "pd_concat dataframes") (simp_all add: load_observations_def)
  let ?df = "map (\<lambda>r. r\<lparr>annotations_col := None\<rparr>) (drop_duplicates df0)"
  have w: "to_sql Replace ?df prior = Inr ?df" for prior
    by (cases prior) (simp_all add: to_sql_def)
  have run: "load_observations export_dir prior lg =
      Inr (?df, lg @ [(INFO, WroteObservations (length ?df))])" for prior
    by (simp add: load_observations_def rd cc w Let_def)
  have "Inr (table', lg') = load_observations export_dir table lg" using assms by simp
  also have "\<dots> = Inr (?df, lg @ [(INFO, WroteObservations (length ?df))])" by (rule run)
  finally have t: "table' = ?df" and l: "lg' = lg @ [(INFO, WroteObservations (length ?df))]"
    by simp_all
  have "\<forall>r \<in> set ?df. annotations_col r = None" by simp
  then have 1: "\<forall>r \<in> set table'. annotations_col r = None" by (simp only: t)
  have 2: "\<forall>prior. load_observations export_dir prior lg = Inr (table', lg')"
    by (simp only: t l run simp_thms)
  from 1 2 show ?thesis by (rule conjI)
qed

theorem load_observations_replaces_witness:
  "load_observations
     [(''notes.txt'', NotAnArchive),
      (''observations-1.csv.zip'', Archive [(''observations-1.csv'',
         [\<lparr>id_col = 5, taxon_id_col = 9, image_url_col = Some ''http://h/5/medium.jpg'',
           annotations_col = None\<rparr>,
          \<lparr>id_col = 5, taxon_id_col = 9, image_url_col = Some ''http://h/5/medium.jpg'',
           annotations_col = None\<rparr>,
          \<lparr>id_col = 6, taxon_id_col = 9, image_url_col = None, annotations_col = None\<rparr>])])]
     (Some [\<lparr>id_col = 5, taxon_id_col = 9, image_url_col = Some ''http://h/5/medium.jpg'',
              annotations_col = Some ''Alive''\<rparr>,
            \<lparr>id_col = 4, taxon_id_col = 9, image_url_col = None,
              annotations_col = Some ''Adult''\<rparr>])
     []
   = Inr ([\<lparr>id_col = 5, taxon_id_col = 9, image_url_col = Some ''http://h/5/medium.jpg'',
             annotations_col = None\<rparr>,
           \<lparr>id_col = 6, taxon_id_col = 9, image_url_col = None, annotations_col = None\<rparr>],
          [(INFO, WroteObservations 2)])
   \<and> list_all (\<lambda>r. annotations_col r = None)
       [\<lparr>id_col = 5, taxon_id_col = 9, image_url_col = Some ''http://h/5/medium.jpg'',
             annotations_col = None\<rparr>,
           \<lparr>id_col = 6, taxon_id_col = 9, image_url_col = None, annotations_col = None\<rparr>]
   \<and> load_observations
     [(''notes.txt'', NotAnArchive),
      (''observations-1.csv.zip'', Archive [(''observations-1.csv'',
         [\<lparr>id_col = 5, taxon_id_col = 9, image_url_col = Some ''http://h/5/medium.jpg'',
           annotations_col = None\<rparr>,
          \<lparr>id_col = 5, taxon_id_col = 9, image_url_col = Some ''http://h/5/medium.jpg'',
           annotations_col = None\<rparr>,
          \<lparr>id_col = 6, taxon_id_col = 9, image_url_col = None, annotations_col = None\<rparr>])])]
     None []
   = Inr ([\<lparr>id_col = 5, taxon_id_col = 9, image_url_col = Some ''http://h/5/medium.jpg'',
             annotations_col = None\<rparr>,
           \<lparr>id_col = 6, taxon_id_col = 9, image_url_col = None, annotations_col = None\<rparr>],
          [(INFO, WroteObservations 2)])"
proof -
  let ?dir = "[(''notes.txt'', NotAnArchive),
      (''observations-1.csv.zip'', Archive [(''observations-1.csv'',
         [\<lparr>id_col = 5, taxon_id_col = 9, image_url_col = Some ''http://h/5/medium.jpg'',
           annotations_col = None\<rparr>,
          \<lparr>id_col = 5, taxon_id_col = 9, image_url_col = Some ''http://h/5/medium.jpg'',
           annotations_col = None\<rparr>,
          \<lparr>id_col = 6, taxon_id_col = 9, image_url_col = None, annotations_col = None\<rparr>])])]"
  let ?old = "Some [\<lparr>id_col = 5, taxon_id_col = 9, image_url_col = Some ''http://h/5/medium.jpg'',
              annotations_col = Some ''Alive''\<rparr>,
            \<lparr>id_col = 4, taxon_id_col = 9, image_url_col = None,
              annotations_col = Some ''Adult''\<rparr>]"
  let ?new = "[\<lparr>id_col = 5, taxon_id_col = 9, image_url_col = Some ''http://h/5/medium.jpg'',
             annotations_col = None\<rparr>,
           \<lparr>id_col = 6, taxon_id_col = 9, image_url_col = None, annotations_col = None\<rparr>]"
  have h: "load_observations ?dir ?old [] = Inr (?new, [(INFO, WroteObservations 2)])"
    by code_simp
  note inst = load_observations_replaces [OF h]
  from inst have "\<forall>r \<in> set ?new. annotations_col r = None" by (rule conjunct1)
  then have a: "list_all (\<lambda>r. annotations_col r = None) ?new" by (simp only: list_all_iff)
  from inst have "\<forall>prior. load_observations ?dir prior [] = Inr (?new, [(INFO, WroteObservations 2)])"
    by (rule conjunct2)
  then have b: "load_observations ?dir None [] = Inr (?new, [(INFO, WroteObservations 2)])"
    by (rule spec)
  from h a b show ?thesis by (intro conjI)
qed

end
